theory Spec2Isabelle
  imports Main
begin

section \<open>Squirrel.Windows lifecycle events (squirrel-updater.ts)\<close>

text \<open>
  A shallow embedding of \<^verbatim>\<open>src/app/src/main-process/squirrel-updater.ts\<close>.

  JavaScript strings are modelled by HOL strings, that is by sequences of code units
  below 256. Strict equality \<^verbatim>\<open>===\<close> on strings is equality of the sequences.
  A promise is modelled by the state it finally reaches; every call the module makes
  to the operating system is appended to a trace, and what the operating system
  answers is read from a \<open>system\<close>, which may depend on everything done before.
\<close>

subsection \<open>Strings\<close>

abbreviation backslash :: char where
  "backslash \<equiv> CHR 0x5C"

abbreviation dquote :: char where
  "dquote \<equiv> CHR 0x22"

abbreviation semicolon :: char where
  "semicolon \<equiv> CHR 0x3B"

text \<open>
  The class \<^verbatim>\<open>\s\<close> of a JavaScript regular expression: of its members, exactly tab,
  line feed, vertical tab, form feed, carriage return, space and the no-break space
  have a code unit below 256.
\<close>

definition is_space :: "char \<Rightarrow> bool" where
  "is_space c = (of_char c \<in> {9, 10, 11, 12, 13, 32, 160 :: nat})"

text \<open>\<^verbatim>\<open>s.replace(/^\s+|\s+$/g, '')\<close>: the leading and the trailing run of whitespace go.\<close>

definition trim :: "string \<Rightarrow> string" where
  "trim s = rev (dropWhile is_space (rev (dropWhile is_space s)))"

text \<open>
  \<^verbatim>\<open>s.split(/;+/)\<close>: the pieces between the maximal runs of semicolons. The empty
  string gives one empty piece; a run at the start or at the end gives an empty piece
  there.
\<close>

function split_semis :: "string \<Rightarrow> string list" where
  "split_semis s =
     (let piece = takeWhile (\<lambda>c. c \<noteq> semicolon) s;
          rest = dropWhile (\<lambda>c. c \<noteq> semicolon) s
      in if rest = [] then [piece]
         else piece # split_semis (dropWhile (\<lambda>c. c = semicolon) rest))"
  by pat_completeness auto
termination
proof (relation "measure length")
  show "wf (measure length)" by simp
next
  fix s :: string and piece rest
  assume r: "rest = dropWhile (\<lambda>c. c \<noteq> semicolon) s" and ne: "rest \<noteq> []"
  from r ne have "hd rest = semicolon"
    using hd_dropWhile [of "\<lambda>c. c \<noteq> semicolon" s] by auto
  with ne obtain t where t: "rest = semicolon # t" by (cases rest) auto
  have "length (dropWhile (\<lambda>c. c = semicolon) rest) \<le> length t"
    using t length_dropWhile_le [of "\<lambda>c. c = semicolon" t] by simp
  also have "\<dots> < length rest" using t by simp
  also have "\<dots> \<le> length s" using r length_dropWhile_le [of "\<lambda>c. c \<noteq> semicolon" s] by simp
  finally show "(dropWhile (\<lambda>c. c = semicolon) rest, s) \<in> measure length" by simp
qed

declare split_semis.simps [simp del]

text \<open>\<^verbatim>\<open>xs.join(sep)\<close>.\<close>

fun join :: "string \<Rightarrow> string list \<Rightarrow> string" where
  "join sep [] = []"
| "join sep [x] = x"
| "join sep (x # y # ys) = x @ sep @ join sep (y # ys)"

text \<open>\<^verbatim>\<open>xs.indexOf(x)\<close>: the first index holding \<open>x\<close>, or \<open>-1\<close>.\<close>

fun indexOf :: "'a list \<Rightarrow> 'a \<Rightarrow> int" where
  "indexOf [] x = -1"
| "indexOf (y # ys) x =
     (if y = x then 0 else (let i = indexOf ys x in if i < 0 then -1 else i + 1))"

subsection \<open>Promises, calls and the operating system\<close>

text \<open>
  \<open>CommandFailed out\<close> is \<^verbatim>\<open>new Error(`Command failed: ${out}`)\<close>; \<open>SpawnError\<close> and
  \<open>FsError\<close> carry the error object handed over by Node, which the module passes on
  as it is.
\<close>

datatype error = CommandFailed string | SpawnError string | FsError string

text \<open>The state a promise finally reaches; \<open>Pending\<close> is a promise that never settles.\<close>

datatype 'a outcome = Resolved 'a | Rejected error | Pending

text \<open>
  What a child process emits, in order: chunks on its standard output, \<^verbatim>\<open>close\<close> with
  the exit code (\<open>None\<close> is \<^verbatim>\<open>null\<close>, a process ended by a signal), \<^verbatim>\<open>error\<close>.
  \<^verbatim>\<open>ChildProcess.spawn\<close> either throws or returns a child.
\<close>

datatype child_event = Data string | Close "int option" | Error string

datatype spawn_behaviour = Throws string | Child "child_event list"

datatype io_call =
    Spawn string "string list"
  | StdinEnd
  | Exists string
  | EnsureDir string
  | WriteFile string string

type_synonym trace = "io_call list"

text \<open>
  The operating system. Each answer is a function of the trace up to and including
  the call that asks: \<open>proc\<close> is the behaviour of the process just spawned, \<open>fileExists\<close>
  the answer of \<^verbatim>\<open>Fs.exists\<close>, \<open>fsError\<close> the error of \<^verbatim>\<open>Fs.ensureDir\<close> or
  \<^verbatim>\<open>Fs.writeFile\<close> (\<open>None\<close> when it succeeds).
\<close>

record system =
  proc :: "trace \<Rightarrow> spawn_behaviour"
  fileExists :: "trace \<Rightarrow> bool"
  fsError :: "trace \<Rightarrow> string option"

text \<open>
  What the module reads of its process and of Node's \<^verbatim>\<open>path\<close> and \<^verbatim>\<open>os\<close> modules:
  \<^verbatim>\<open>process.execPath\<close>, \<^verbatim>\<open>Os.homedir()\<close>, \<^verbatim>\<open>process.env['SystemRoot']\<close>
  (\<open>None\<close> when undefined), \<^verbatim>\<open>Path.resolve\<close>, \<^verbatim>\<open>Path.join\<close>, \<^verbatim>\<open>Path.relative\<close> and
  \<^verbatim>\<open>Path.basename\<close>.
\<close>

record platform =
  execPath :: string
  homedir :: string
  envSystemRoot :: "string option"
  pathResolve :: "string list \<Rightarrow> string"
  pathJoin :: "string list \<Rightarrow> string"
  pathRelative :: "string \<Rightarrow> string \<Rightarrow> string"
  pathBasename :: "string \<Rightarrow> string"

type_synonym 'a io = "trace \<Rightarrow> 'a outcome \<times> trace"

definition return_io :: "'a \<Rightarrow> 'a io" where
  "return_io a tr = (Resolved a, tr)"

text \<open>\<^verbatim>\<open>await\<close>: the rest runs once the promise is resolved; a rejection is thrown on.\<close>

definition bind_io :: "'a io \<Rightarrow> ('a \<Rightarrow> 'b io) \<Rightarrow> 'b io" where
  "bind_io m f tr =
     (case m tr of
        (Resolved a, tr1) \<Rightarrow> f a tr1
      | (Rejected e, tr1) \<Rightarrow> (Rejected e, tr1)
      | (Pending, tr1) \<Rightarrow> (Pending, tr1))"

subsection \<open>spawn\<close>

text \<open>
  The handlers of \<^verbatim>\<open>data\<close>, \<^verbatim>\<open>close\<close> and \<^verbatim>\<open>error\<close>, run over the events of the child
  with the text captured so far. The first \<^verbatim>\<open>close\<close> or \<^verbatim>\<open>error\<close> settles the promise;
  a settled promise ignores every later \<^verbatim>\<open>resolve\<close> and \<^verbatim>\<open>reject\<close>.
\<close>

fun events :: "string \<Rightarrow> child_event list \<Rightarrow> string outcome" where
  "events stdout [] = Pending"
| "events stdout (Data d # es) = events (stdout @ d) es"
| "events stdout (Close code # es) =
     (if code = Some 0 then Resolved stdout else Rejected (CommandFailed stdout))"
| "events stdout (Error err # es) = Rejected (SpawnError err)"

definition spawn :: "system \<Rightarrow> string \<Rightarrow> string list \<Rightarrow> string io" where
  "spawn sys command args tr =
     (let tr1 = tr @ [Spawn command args]
      in case proc sys tr1 of
           Throws err \<Rightarrow> (Rejected (SpawnError err), tr1)
         | Child evs \<Rightarrow> (events [] evs, tr1 @ [StdinEnd]))"

subsection \<open>The file system\<close>

text \<open>
  \<^verbatim>\<open>Fs.exists(path, cb)\<close> calls back with the answer; \<^verbatim>\<open>Fs.ensureDir(path, cb)\<close> and
  \<^verbatim>\<open>Fs.writeFile(path, data, cb)\<close> call back with an error or with none, and the
  module rejects with the error it is given.
\<close>

definition fsExists :: "system \<Rightarrow> string \<Rightarrow> bool io" where
  "fsExists sys path tr =
     (let tr1 = tr @ [Exists path] in (Resolved (fileExists sys tr1), tr1))"

definition fsEnsureDir :: "system \<Rightarrow> string \<Rightarrow> unit io" where
  "fsEnsureDir sys path tr =
     (let tr1 = tr @ [EnsureDir path]
      in case fsError sys tr1 of
           Some err \<Rightarrow> (Rejected (FsError err), tr1)
         | None \<Rightarrow> (Resolved (), tr1))"

definition fsWriteFile :: "system \<Rightarrow> string \<Rightarrow> string \<Rightarrow> unit io" where
  "fsWriteFile sys path content tr =
     (let tr1 = tr @ [WriteFile path content]
      in case fsError sys tr1 of
           Some err \<Rightarrow> (Rejected (FsError err), tr1)
         | None \<Rightarrow> (Resolved (), tr1))"

subsection \<open>Paths, trampoline and shortcuts\<close>

definition getBinPath :: "platform \<Rightarrow> string" where
  "getBinPath pf =
     (let appFolder = pathResolve pf [execPath pf, ''..''];
          rootAppDir = pathResolve pf [appFolder, ''..'']
      in pathJoin pf [rootAppDir, ''bin''])"

definition writeCLITrampoline :: "system \<Rightarrow> platform \<Rightarrow> string io" where
  "writeCLITrampoline sys pf =
     (let binPath = getBinPath pf;
          appFolder = pathResolve pf [execPath pf, ''..''];
          versionedPath = pathRelative pf binPath
            (pathJoin pf [appFolder, ''resources'', ''app'', ''static'', ''github.bat'']);
          trampline = ''@echo off\<newline>'' @ [dquote] @ ''%~dp0'' @ [backslash] @ versionedPath
            @ [dquote] @ '' %*'';
          trampolinePath = pathJoin pf [binPath, ''github.bat'']
      in bind_io (fsEnsureDir sys binPath) (\<lambda>_.
         bind_io (fsWriteFile sys trampolinePath trampline) (\<lambda>_.
         return_io binPath)))"

definition spawnSquirrelUpdate :: "system \<Rightarrow> platform \<Rightarrow> string \<Rightarrow> unit io" where
  "spawnSquirrelUpdate sys pf command =
     (let appFolder = pathResolve pf [execPath pf, ''..''];
          rootAppDir = pathResolve pf [appFolder, ''..''];
          updateDotExe = pathResolve pf [pathJoin pf [rootAppDir, ''Update.exe'']];
          exeName = pathBasename pf (execPath pf)
      in bind_io (spawn sys updateDotExe [command, exeName]) (\<lambda>_. return_io ()))"

definition createShortcut :: "system \<Rightarrow> platform \<Rightarrow> unit io" where
  "createShortcut sys pf = spawnSquirrelUpdate sys pf ''--createShortcut''"

definition removeShortcut :: "system \<Rightarrow> platform \<Rightarrow> unit io" where
  "removeShortcut sys pf = spawnSquirrelUpdate sys pf ''--removeShortcut''"

text \<open>An empty string is falsy: \<^verbatim>\<open>if (homeDirectory)\<close> takes the else branch on it.\<close>

definition updateShortcut :: "system \<Rightarrow> platform \<Rightarrow> unit io" where
  "updateShortcut sys pf =
     (let homeDirectory = homedir pf
      in if homeDirectory \<noteq> [] then
           (let desktopShortcutPath = pathJoin pf [homeDirectory, ''Desktop'', ''GitHub Desktop.lnk'']
            in bind_io (fsExists sys desktopShortcutPath) (\<lambda>exists.
                 if exists then createShortcut sys pf else return_io ()))
         else createShortcut sys pf)"

subsection \<open>Reading and writing the user's Path\<close>

definition powershellPath :: "platform \<Rightarrow> string" where
  "powershellPath pf =
     (case envSystemRoot pf of
        Some systemRoot \<Rightarrow>
          if systemRoot \<noteq> [] then
            (let system32Path = pathJoin pf [systemRoot, ''System32'']
             in pathJoin pf [system32Path, ''WindowsPowerShell'', ''v1.0'', ''powershell.exe''])
          else ''powershell.exe''
      | None \<Rightarrow> ''powershell.exe'')"

definition powershellArgs :: "string list" where
  "powershellArgs =
     [''-noprofile'', ''-ExecutionPolicy'', ''RemoteSigned'', ''-command'',
      ''\<newline>      [Console]::OutputEncoding=[System.Text.Encoding]::UTF8''
      @ ''\<newline>      $output=[environment]::GetEnvironmentVariable('Path', 'User')''
      @ ''\<newline>      [Console]::WriteLine($output)\<newline>    '']"

text \<open>Lines 159 to 162: what \<open>getPathSegments\<close> makes of the captured output.\<close>

definition parsePathOutput :: "string \<Rightarrow> string list" where
  "parsePathOutput stdout =
     (let pathOutput = trim stdout
      in filter (\<lambda>segment. length segment \<noteq> 0) (split_semis pathOutput))"

definition getPathSegments :: "system \<Rightarrow> platform \<Rightarrow> string list io" where
  "getPathSegments sys pf =
     bind_io (spawn sys (powershellPath pf) powershellArgs)
       (\<lambda>stdout. return_io (parsePathOutput stdout))"

definition setxPath :: "platform \<Rightarrow> string" where
  "setxPath pf =
     (case envSystemRoot pf of
        Some systemRoot \<Rightarrow>
          if systemRoot \<noteq> [] then
            (let system32Path = pathJoin pf [systemRoot, ''System32'']
             in pathJoin pf [system32Path, ''setx.exe''])
          else ''setx.exe''
      | None \<Rightarrow> ''setx.exe'')"

definition setPathSegments :: "system \<Rightarrow> platform \<Rightarrow> string list \<Rightarrow> unit io" where
  "setPathSegments sys pf paths =
     bind_io (spawn sys (setxPath pf) [''Path'', join '';'' paths]) (\<lambda>_. return_io ())"

subsection \<open>The handlers and the dispatcher\<close>

definition handleUpdated :: "system \<Rightarrow> platform \<Rightarrow> unit io" where
  "handleUpdated sys pf =
     bind_io (updateShortcut sys pf) (\<lambda>_.
     bind_io (writeCLITrampoline sys pf) (\<lambda>binPath.
     bind_io (getPathSegments sys pf) (\<lambda>paths.
       if indexOf paths binPath < 0 then setPathSegments sys pf (paths @ [binPath])
       else return_io ())))"

definition handleUninstall :: "system \<Rightarrow> platform \<Rightarrow> unit io" where
  "handleUninstall sys pf =
     bind_io (removeShortcut sys pf) (\<lambda>_.
     bind_io (getPathSegments sys pf) (\<lambda>paths.
       (let binPath = getBinPath pf;
            pathsWithoutBinPath = filter (\<lambda>p. p \<noteq> binPath) paths
        in setPathSegments sys pf pathsWithoutBinPath)))"

text \<open>
  The dispatcher returns a promise or \<^verbatim>\<open>null\<close>: \<open>None\<close> is \<^verbatim>\<open>null\<close>, and \<open>Some\<close> holds
  the state the returned promise reaches. The trace is returned in both cases.
\<close>

definition started :: "'a outcome \<times> trace \<Rightarrow> 'a outcome option \<times> trace" where
  "started r = (Some (fst r), snd r)"

definition handleSquirrelEvent ::
  "system \<Rightarrow> platform \<Rightarrow> string \<Rightarrow> trace \<Rightarrow> unit outcome option \<times> trace" where
  "handleSquirrelEvent sys pf eventName tr =
     (if eventName = ''--squirrel-install'' then started (createShortcut sys pf tr)
      else if eventName = ''--squirrel-updated'' then started (handleUpdated sys pf tr)
      else if eventName = ''--squirrel-uninstall'' then started (handleUninstall sys pf tr)
      else if eventName = ''--squirrel-obsolete'' then (Some (Resolved ()), tr)
      else (None, tr))"

subsection \<open>Names for local values, properties of runs, sample systems\<close>

text \<open>The values of the locals of \<open>spawnSquirrelUpdate\<close> and \<open>updateShortcut\<close>.\<close>

definition updateDotExe :: "platform \<Rightarrow> string" where
  "updateDotExe pf =
     pathResolve pf [pathJoin pf
       [pathResolve pf [pathResolve pf [execPath pf, ''..''], ''..''], ''Update.exe'']]"

definition exeName :: "platform \<Rightarrow> string" where
  "exeName pf = pathBasename pf (execPath pf)"

definition desktopShortcutPath :: "platform \<Rightarrow> string" where
  "desktopShortcutPath pf = pathJoin pf [homedir pf, ''Desktop'', ''GitHub Desktop.lnk'']"

text \<open>
  Two properties of a computation, for every trace it starts from. \<open>calls_in S m\<close>: it
  only appends calls, all of them in \<open>S\<close>. \<open>fail_stop sys m\<close>: it only appends calls,
  and when the promise of one of its spawns is rejected, \<open>m\<close> is rejected with the same
  error and its trace ends where that spawn left it.
\<close>

definition calls_in :: "io_call set \<Rightarrow> 'a io \<Rightarrow> bool" where
  "calls_in S m = (\<forall>tr. \<exists>new. snd (m tr) = tr @ new \<and> set new \<subseteq> S)"

definition fail_stop :: "system \<Rightarrow> 'a io \<Rightarrow> bool" where
  "fail_stop sys m =
     (\<forall>tr. \<exists>new. snd (m tr) = tr @ new \<and>
        (\<forall>pre c a post e.
            new = pre @ Spawn c a # post \<longrightarrow>
            fst (spawn sys c a (tr @ pre)) = Rejected e \<longrightarrow>
            fst (m tr) = Rejected e \<and> snd (m tr) = snd (spawn sys c a (tr @ pre))))"

text \<open>
  A sample platform and a sample operating system, for the concrete instances below.
  The application is \<^verbatim>\<open>C:\app-1.0\GitHubDesktop.exe\<close>, paths are joined with a
  backslash, \<^verbatim>\<open>SystemRoot\<close> is not set. PowerShell prints \<open>userPath\<close> and a line end;
  every command exits with the code \<open>exitCode\<close> gives it; the desktop shortcut exists
  and the file system never fails.
\<close>

definition sample_dirname :: "string \<Rightarrow> string" where
  "sample_dirname p = rev (drop 1 (dropWhile (\<lambda>c. c \<noteq> backslash) (rev p)))"

definition sample_platform :: platform where
  "sample_platform =
     \<lparr> execPath = ''C:'' @ [backslash] @ ''app-1.0'' @ [backslash] @ ''GitHubDesktop.exe'',
       homedir = ''C:'' @ [backslash] @ ''Users'' @ [backslash] @ ''me'',
       envSystemRoot = None,
       pathResolve = (\<lambda>args. if length args = 2 \<and> last args = ''..''
                                then sample_dirname (hd args) else join [backslash] args),
       pathJoin = join [backslash],
       pathRelative = (\<lambda>from to. ''..'' @ [backslash] @ drop (length (sample_dirname from) + 1) to),
       pathBasename = (\<lambda>p. rev (takeWhile (\<lambda>c. c \<noteq> backslash) (rev p))) \<rparr>"

definition sample_system :: "string \<Rightarrow> (string \<Rightarrow> int) \<Rightarrow> system" where
  "sample_system userPath exitCode =
     \<lparr> proc = (\<lambda>tr. case rev tr of
                     Spawn command args # _ \<Rightarrow>
                       Child ((if command = ''powershell.exe''
                               then [Data (userPath @ [CHR 0x0D, CHR 0x0A])] else [])
                              @ [Close (Some (exitCode command))])
                   | _ \<Rightarrow> Child []),
       fileExists = (\<lambda>tr. True),
       fsError = (\<lambda>tr. None) \<rparr>"

abbreviation dirA :: string where
  "dirA \<equiv> ''C:'' @ [backslash] @ ''A''"

abbreviation dirB :: string where
  "dirB \<equiv> ''C:'' @ [backslash] @ ''B''"

abbreviation dirBin :: string where
  "dirBin \<equiv> ''C:'' @ [backslash] @ ''bin''"

text \<open>
  Modelled from the spec: the two external tools, which are not code of this
  repository. \<^verbatim>\<open>setx Path v\<close> sets the user's Path to \<open>v\<close> (section 4.6), and the
  PowerShell command prints the user's Path (section 4.5). \<open>userPath setx initial tr\<close>
  is the value the user's Path holds after the calls of \<open>tr\<close>, when it held \<open>initial\<close>
  before them: the value of the last spawn of \<open>setx\<close> with the arguments \<^verbatim>\<open>Path\<close> and a
  value. \<open>storing_system pf initial\<close> is an operating system on which PowerShell
  prints that value and a line end, every command exits with code zero, the desktop
  shortcut exists and the file system never fails. \<open>other_calls\<close> are the calls that
  do not change the value: every call but a spawn with the arguments \<^verbatim>\<open>Path\<close> and a
  value.
\<close>

definition other_calls :: "io_call set" where
  "other_calls = {call. \<forall>command v. call \<noteq> Spawn command [''Path'', v]}"

definition storeStep :: "string \<Rightarrow> string \<Rightarrow> io_call \<Rightarrow> string" where
  "storeStep setx current call =
     (case call of
        Spawn command args \<Rightarrow>
          (case args of
             [k, v] \<Rightarrow> if command = setx \<and> k = ''Path'' then v else current
           | _ \<Rightarrow> current)
      | _ \<Rightarrow> current)"

definition userPath :: "string \<Rightarrow> string \<Rightarrow> trace \<Rightarrow> string" where
  "userPath setx initial tr = foldl (storeStep setx) initial tr"

definition storing_system :: "platform \<Rightarrow> string \<Rightarrow> system" where
  "storing_system pf initial =
     \<lparr> proc = (\<lambda>tr. case rev tr of
                     Spawn command args # earlier \<Rightarrow>
                       if command = powershellPath pf \<and> args = powershellArgs
                       then Child [Data (userPath (setxPath pf) initial (rev earlier)
                                         @ [CHR 0x0D, CHR 0x0A]),
                                   Close (Some 0)]
                       else Child [Close (Some 0)]
                   | _ \<Rightarrow> Child []),
       fileExists = (\<lambda>tr. True),
       fsError = (\<lambda>tr. None) \<rparr>"

text \<open>The sample platform installed under a directory whose name holds a semicolon.\<close>

definition semicolon_platform :: platform where
  "semicolon_platform =
     sample_platform \<lparr> execPath := ''C:'' @ [backslash] @ ''my;apps'' @ [backslash] @ ''app-1.0''
                                    @ [backslash] @ ''GitHubDesktop.exe'' \<rparr>"

section \<open>Properties\<close>

subsection \<open>Strings\<close>

lemma split_semis_last:
  "dropWhile (\<lambda>c. c \<noteq> semicolon) s = [] \<Longrightarrow> split_semis s = [takeWhile (\<lambda>c. c \<noteq> semicolon) s]"
  by (subst split_semis.simps) simp

lemma split_semis_more:
  assumes "dropWhile (\<lambda>c. c \<noteq> semicolon) s \<noteq> []"
  shows "split_semis s = takeWhile (\<lambda>c. c \<noteq> semicolon) s #
     split_semis (dropWhile (\<lambda>c. c = semicolon) (dropWhile (\<lambda>c. c \<noteq> semicolon) s))"
proof -
  have "split_semis s = (let piece = takeWhile (\<lambda>c. c \<noteq> semicolon) s;
          rest = dropWhile (\<lambda>c. c \<noteq> semicolon) s
      in if rest = [] then [piece]
         else piece # split_semis (dropWhile (\<lambda>c. c = semicolon) rest))"
    by (rule split_semis.simps)
  also have "\<dots> = takeWhile (\<lambda>c. c \<noteq> semicolon) s #
     split_semis (dropWhile (\<lambda>c. c = semicolon) (dropWhile (\<lambda>c. c \<noteq> semicolon) s))"
    unfolding Let_def using assms by (simp only: if_False)
  finally show ?thesis .
qed

lemma split_semis_no_semi: "semicolon \<notin> set s \<Longrightarrow> split_semis s = [s]"
proof -
  assume a: "semicolon \<notin> set s"
  then have "takeWhile (\<lambda>c. c \<noteq> semicolon) s = s" "dropWhile (\<lambda>c. c \<noteq> semicolon) s = []"
    by (auto simp: takeWhile_eq_all_conv dropWhile_eq_Nil_conv)
  then show ?thesis by (simp add: split_semis_last)
qed

lemma split_semis_append:
  assumes "semicolon \<notin> set x"
  shows "split_semis (x @ semicolon # r) = x # split_semis (dropWhile (\<lambda>c. c = semicolon) r)"
proof -
  have t: "takeWhile (\<lambda>c. c \<noteq> semicolon) (x @ semicolon # r) = x"
    using assms by (induction x) auto
  have d: "dropWhile (\<lambda>c. c \<noteq> semicolon) (x @ semicolon # r) = semicolon # r"
    using assms by (induction x) auto
  have "dropWhile (\<lambda>c. c \<noteq> semicolon) (x @ semicolon # r) \<noteq> []" by (simp only: d) simp
  from split_semis_more [OF this] show ?thesis by (simp only: t d) simp
qed

lemma split_semis_pieces: "seg \<in> set (split_semis s) \<Longrightarrow> semicolon \<notin> set seg"
proof (induction s rule: split_semis.induct)
  case (1 s)
  show ?case
  proof (cases "dropWhile (\<lambda>c. c \<noteq> semicolon) s = []")
    case True
    with "1.prems" have "seg = takeWhile (\<lambda>c. c \<noteq> semicolon) s"
      using split_semis_last [OF True] by simp
    then show ?thesis by (auto dest: set_takeWhileD)
  next
    case False
    with "1.prems" have "seg = takeWhile (\<lambda>c. c \<noteq> semicolon) s \<or>
        seg \<in> set (split_semis (dropWhile (\<lambda>c. c = semicolon) (dropWhile (\<lambda>c. c \<noteq> semicolon) s)))"
      using split_semis_more [OF False] by simp
    then show ?thesis
      using "1.IH" [OF refl refl False] by (auto dest: set_takeWhileD)
  qed
qed

lemma filter_takeWhile_same: "filter P (takeWhile P s) = takeWhile P s"
  by (induction s) auto

lemma filter_dropWhile_neg: "filter (\<lambda>c. \<not> P c) (dropWhile P s) = filter (\<lambda>c. \<not> P c) s"
  by (induction s) auto

lemma concat_split_semis: "concat (split_semis s) = filter (\<lambda>c. c \<noteq> semicolon) s"
proof (induction s rule: split_semis.induct)
  case (1 s)
  let ?t = "takeWhile (\<lambda>c. c \<noteq> semicolon) s"
  let ?d = "dropWhile (\<lambda>c. c \<noteq> semicolon) s"
  have "filter (\<lambda>c. c \<noteq> semicolon) (?t @ ?d) = ?t @ filter (\<lambda>c. c \<noteq> semicolon) ?d"
    by (simp only: filter_append filter_takeWhile_same)
  then have s: "filter (\<lambda>c. c \<noteq> semicolon) s = ?t @ filter (\<lambda>c. c \<noteq> semicolon) ?d"
    by simp
  show ?case
  proof (cases "?d = []")
    case True
    then show ?thesis using s split_semis_last [OF True] by simp
  next
    case False
    let ?r = "dropWhile (\<lambda>c. c = semicolon) ?d"
    have "filter (\<lambda>c. c \<noteq> semicolon) ?r = filter (\<lambda>c. c \<noteq> semicolon) ?d"
      using filter_dropWhile_neg [of "\<lambda>c. c = semicolon" ?d] by simp
    then show ?thesis
      using s "1.IH" [OF refl refl False] split_semis_more [OF False] by simp
  qed
qed

lemma dropWhile_hd_id: "s \<noteq> [] \<Longrightarrow> \<not> P (hd s) \<Longrightarrow> dropWhile P s = s"
  by (cases s) auto

lemma trim_id:
  assumes "s \<noteq> []" "\<not> is_space (hd s)" "\<not> is_space (last s)"
  shows "trim s = s"
proof -
  have a: "dropWhile is_space s = s" using assms by (intro dropWhile_hd_id)
  have "hd (rev s) = last s" using assms(1) by (simp add: hd_rev)
  then have b: "dropWhile is_space (rev s) = rev s"
    using assms by (intro dropWhile_hd_id) simp_all
  show ?thesis unfolding trim_def a b by simp
qed

lemma trim_Nil: "trim [] = []"
  by (simp add: trim_def)

lemma hd_join: "xs \<noteq> [] \<Longrightarrow> hd xs \<noteq> [] \<Longrightarrow> hd (join sep xs) = hd (hd xs)"
  by (induction sep xs rule: join.induct) auto

lemma join_nonempty: "xs \<noteq> [] \<Longrightarrow> \<forall>x\<in>set xs. x \<noteq> [] \<Longrightarrow> join sep xs \<noteq> []"
  by (induction sep xs rule: join.induct) auto

lemma last_join: "xs \<noteq> [] \<Longrightarrow> \<forall>x\<in>set xs. x \<noteq> [] \<Longrightarrow> last (join sep xs) = last (last xs)"
proof (induction sep xs rule: join.induct)
  case (3 sep x y ys)
  have "join sep (y # ys) \<noteq> []" using "3.prems" by (intro join_nonempty) auto
  then show ?case using 3 by simp
qed auto

lemma split_semis_join:
  assumes "\<forall>x\<in>set xs. x \<noteq> [] \<and> semicolon \<notin> set x" "xs \<noteq> []"
  shows "split_semis (join '';'' xs) = xs"
  using assms
proof (induction "'';''" xs rule: join.induct)
  case 1
  then show ?case by simp
next
  case (2 x)
  then show ?case by (simp add: split_semis_no_semi)
next
  case (3 x y ys)
  have ne: "join '';'' (y # ys) \<noteq> []" using "3.prems" by (intro join_nonempty) auto
  have "hd (join '';'' (y # ys)) = hd y" using "3.prems" by (intro hd_join [of "y # ys", simplified]) auto
  moreover have "hd y \<noteq> semicolon" using "3.prems" by (cases y) auto
  ultimately have d: "dropWhile (\<lambda>c. c = semicolon) (join '';'' (y # ys)) = join '';'' (y # ys)"
    using ne by (intro dropWhile_hd_id) auto
  have "split_semis (x @ semicolon # join '';'' (y # ys)) = x # split_semis (join '';'' (y # ys))"
    using split_semis_append [of x "join '';'' (y # ys)"] "3.prems" by (simp only: d) simp
  then show ?case using 3 by simp
qed

lemma parse_join:
  assumes "\<forall>x\<in>set xs. x \<noteq> [] \<and> semicolon \<notin> set x \<and> \<not> is_space (hd x) \<and> \<not> is_space (last x)"
  shows "parsePathOutput (join '';'' xs) = xs"
proof (cases "xs = []")
  case True
  have "split_semis [] = [[]]" by (simp add: split_semis_no_semi)
  then show ?thesis using True by (simp add: parsePathOutput_def trim_Nil)
next
  case False
  have ne: "join '';'' xs \<noteq> []" using assms False by (intro join_nonempty) auto
  have h: "hd (join '';'' xs) = hd (hd xs)" using assms False by (intro hd_join) auto
  have l: "last (join '';'' xs) = last (last xs)" using assms False by (intro last_join) auto
  have "trim (join '';'' xs) = join '';'' xs"
    using ne h l assms False by (intro trim_id) auto
  moreover have "split_semis (join '';'' xs) = xs" using assms False by (intro split_semis_join) auto
  moreover have "filter (\<lambda>segment. length segment \<noteq> 0) xs = xs"
    using assms by (auto simp: filter_id_conv)
  ultimately show ?thesis by (simp add: parsePathOutput_def)
qed

lemma dropWhile_replicate_append:
  "ys \<noteq> [] \<Longrightarrow> hd ys \<noteq> x \<Longrightarrow> dropWhile (\<lambda>c. c = x) (replicate n x @ ys) = ys"
  by (induction n) (auto simp: dropWhile_hd_id)

lemma split_semis_layout:
  assumes "semicolon \<notin> set x0" "\<forall>(n, seg)\<in>set ps. seg \<noteq> [] \<and> semicolon \<notin> set seg"
  shows "split_semis (x0 @ concat (map (\<lambda>(n, seg). replicate (Suc n) semicolon @ seg) ps)
            @ replicate m semicolon)
         = x0 # map snd ps @ (if m = 0 then [] else [[]])"
  using assms
proof (induction ps arbitrary: x0)
  case Nil
  show ?case
  proof (cases m)
    case 0
    then show ?thesis using Nil by (simp add: split_semis_no_semi)
  next
    case (Suc k)
    have "dropWhile (\<lambda>c. c = semicolon) (replicate k semicolon) = []" by simp
    moreover have "split_semis [] = [[]]" by (simp add: split_semis_no_semi)
    ultimately have "split_semis (x0 @ semicolon # replicate k semicolon) = [x0, []]"
      using split_semis_append [of x0 "replicate k semicolon"] Nil by simp
    then show ?thesis using Suc by simp
  qed
next
  case (Cons p ps)
  obtain n seg where p: "p = (n, seg)" by (cases p)
  let ?rest = "concat (map (\<lambda>(n, seg). replicate (Suc n) semicolon @ seg) ps) @ replicate m semicolon"
  have seg: "seg \<noteq> []" "semicolon \<notin> set seg" using Cons.prems p by auto
  then have "hd seg \<noteq> semicolon" by (cases seg) auto
  then have "dropWhile (\<lambda>c. c = semicolon) (replicate n semicolon @ (seg @ ?rest)) = seg @ ?rest"
    using seg by (intro dropWhile_replicate_append) auto
  then have "split_semis (x0 @ semicolon # (replicate n semicolon @ (seg @ ?rest))) = x0 # split_semis (seg @ ?rest)"
    using split_semis_append [of x0 "replicate n semicolon @ (seg @ ?rest)"] Cons.prems by simp
  moreover have "split_semis (seg @ ?rest) = seg # map snd ps @ (if m = 0 then [] else [[]])"
    using Cons.IH [of seg] seg Cons.prems by simp
  ultimately show ?case using p by simp
qed

lemma dropWhile_all_append: "\<forall>x\<in>set xs. P x \<Longrightarrow> dropWhile P (xs @ ys) = dropWhile P ys"
  by (induction xs) auto

lemma trim_core:
  assumes "\<forall>c\<in>set ws1. is_space c" "\<forall>c\<in>set ws2. is_space c"
    and "core \<noteq> [] \<longrightarrow> \<not> is_space (hd core) \<and> \<not> is_space (last core)"
  shows "trim (ws1 @ core @ ws2) = core"
proof (cases "core = []")
  case True
  have "\<forall>c\<in>set (ws1 @ ws2). is_space c" using assms by auto
  then have "dropWhile is_space (ws1 @ ws2) = []" by (simp only: dropWhile_eq_Nil_conv)
  then show ?thesis
    by (simp only: trim_def True append_Nil rev.simps dropWhile.simps)
next
  case False
  have "dropWhile is_space (ws1 @ core @ ws2) = dropWhile is_space (core @ ws2)"
    using assms by (intro dropWhile_all_append) simp
  moreover have "dropWhile is_space (core @ ws2) = core @ ws2"
    using assms False by (intro dropWhile_hd_id) auto
  ultimately have a: "dropWhile is_space (ws1 @ core @ ws2) = core @ ws2" by simp
  have "hd (rev core) = last core" using False by (simp add: hd_rev)
  then have "dropWhile is_space (rev core) = rev core"
    using assms False by (intro dropWhile_hd_id) auto
  moreover have "dropWhile is_space (rev ws2 @ rev core) = dropWhile is_space (rev core)"
    using assms by (intro dropWhile_all_append) simp
  ultimately have b: "dropWhile is_space (rev ws2 @ rev core) = rev core" by simp
  show ?thesis unfolding trim_def a using b by simp
qed

lemma indexOf_neg: "indexOf xs x < 0 \<longleftrightarrow> x \<notin> set xs"
  by (induction xs) (auto simp: Let_def)

subsection \<open>Promises and traces\<close>

lemma events_Data: "events acc (map Data ds @ es) = events (acc @ concat ds) es"
  by (induction ds arbitrary: acc) auto

lemma events_Resolved:
  "events acc evs = Resolved out \<Longrightarrow>
   \<exists>ds rest. evs = map Data ds @ Close (Some 0) # rest \<and> out = acc @ concat ds"
proof (induction acc evs rule: events.induct)
  case (2 stdout d es)
  then obtain ds rest where "es = map Data ds @ Close (Some 0) # rest" "out = (stdout @ d) @ concat ds"
    by auto
  then have "Data d # es = map Data (d # ds) @ Close (Some 0) # rest \<and> out = stdout @ concat (d # ds)"
    by simp
  then show ?case by blast
next
  case (3 stdout code es)
  then have "Close code # es = map Data [] @ Close (Some 0) # es \<and> out = stdout @ concat []"
    by (auto split: if_splits)
  then show ?case by blast
qed auto

lemma spawn_Child:
  "proc sys (tr @ [Spawn c a]) = Child evs \<Longrightarrow>
   spawn sys c a tr = (events [] evs, tr @ [Spawn c a, StdinEnd])"
  by (simp add: spawn_def)

lemma spawn_Throws:
  "proc sys (tr @ [Spawn c a]) = Throws err \<Longrightarrow>
   spawn sys c a tr = (Rejected (SpawnError err), tr @ [Spawn c a])"
  by (simp add: spawn_def)

lemma spawnSquirrelUpdate_eq:
  "spawnSquirrelUpdate sys pf command =
   bind_io (spawn sys (updateDotExe pf) [command, exeName pf]) (\<lambda>_. return_io ())"
  by (simp add: spawnSquirrelUpdate_def updateDotExe_def exeName_def)

lemma updateShortcut_eq:
  "updateShortcut sys pf =
   (if homedir pf \<noteq> [] then
      bind_io (fsExists sys (desktopShortcutPath pf))
        (\<lambda>exists. if exists then createShortcut sys pf else return_io ())
    else createShortcut sys pf)"
  by (simp add: updateShortcut_def desktopShortcutPath_def)

lemma fail_stop_return: "fail_stop sys (return_io a)"
  by (simp add: fail_stop_def return_io_def)

lemma fail_stop_spawn: "fail_stop sys (spawn sys c a)"
proof -
  have "\<exists>new. snd (spawn sys c a tr) = tr @ new \<and>
        (\<forall>pre c' a' post e.
            new = pre @ Spawn c' a' # post \<longrightarrow>
            fst (spawn sys c' a' (tr @ pre)) = Rejected e \<longrightarrow>
            fst (spawn sys c a tr) = Rejected e \<and> snd (spawn sys c a tr) = snd (spawn sys c' a' (tr @ pre)))" for tr
  proof (cases "proc sys (tr @ [Spawn c a])")
    case (Throws err)
    have "snd (spawn sys c a tr) = tr @ [Spawn c a]" using Throws by (simp add: spawn_Throws)
    moreover have "pre = [] \<and> c' = c \<and> a' = a" if "[Spawn c a] = pre @ Spawn c' a' # post" for pre c' a' post
      using that by (cases pre) auto
    ultimately show ?thesis by (metis append_Nil2)
  next
    case (Child evs)
    have "snd (spawn sys c a tr) = tr @ [Spawn c a, StdinEnd]" using Child by (simp add: spawn_Child)
    moreover have "pre = [] \<and> c' = c \<and> a' = a" if "[Spawn c a, StdinEnd] = pre @ Spawn c' a' # post" for pre c' a' post
      using that by (cases pre; cases "tl pre") auto
    ultimately show ?thesis by (metis append_Nil2)
  qed
  then show ?thesis unfolding fail_stop_def by blast
qed

lemma no_spawn_single: "(\<And>c a. x \<noteq> Spawn c a) \<Longrightarrow> [x] \<noteq> pre @ Spawn c a # post"
  by (cases pre) auto

lemma fail_stop_fsExists: "fail_stop sys (fsExists sys p)"
  unfolding fail_stop_def
proof
  fix tr
  have "snd (fsExists sys p tr) = tr @ [Exists p]" by (simp add: fsExists_def Let_def)
  moreover have "[Exists p] \<noteq> pre @ Spawn c a # post" for pre c a post
    by (rule no_spawn_single) simp
  ultimately show "\<exists>new. snd (fsExists sys p tr) = tr @ new \<and>
        (\<forall>pre c a post e. new = pre @ Spawn c a # post \<longrightarrow>
            fst (spawn sys c a (tr @ pre)) = Rejected e \<longrightarrow>
            fst (fsExists sys p tr) = Rejected e \<and> snd (fsExists sys p tr) = snd (spawn sys c a (tr @ pre)))"
    by blast
qed

lemma fail_stop_fsEnsureDir: "fail_stop sys (fsEnsureDir sys p)"
  unfolding fail_stop_def
proof
  fix tr
  have "snd (fsEnsureDir sys p tr) = tr @ [EnsureDir p]"
    by (simp add: fsEnsureDir_def Let_def split: option.splits)
  moreover have "[EnsureDir p] \<noteq> pre @ Spawn c a # post" for pre c a post
    by (rule no_spawn_single) simp
  ultimately show "\<exists>new. snd (fsEnsureDir sys p tr) = tr @ new \<and>
        (\<forall>pre c a post e. new = pre @ Spawn c a # post \<longrightarrow>
            fst (spawn sys c a (tr @ pre)) = Rejected e \<longrightarrow>
            fst (fsEnsureDir sys p tr) = Rejected e \<and> snd (fsEnsureDir sys p tr) = snd (spawn sys c a (tr @ pre)))"
    by blast
qed

lemma fail_stop_fsWriteFile: "fail_stop sys (fsWriteFile sys p d)"
  unfolding fail_stop_def
proof
  fix tr
  have "snd (fsWriteFile sys p d tr) = tr @ [WriteFile p d]"
    by (simp add: fsWriteFile_def Let_def split: option.splits)
  moreover have "[WriteFile p d] \<noteq> pre @ Spawn c a # post" for pre c a post
    by (rule no_spawn_single) simp
  ultimately show "\<exists>new. snd (fsWriteFile sys p d tr) = tr @ new \<and>
        (\<forall>pre c a post e. new = pre @ Spawn c a # post \<longrightarrow>
            fst (spawn sys c a (tr @ pre)) = Rejected e \<longrightarrow>
            fst (fsWriteFile sys p d tr) = Rejected e \<and> snd (fsWriteFile sys p d tr) = snd (spawn sys c a (tr @ pre)))"
    by blast
qed

lemma append_eq_mid:
  "xs @ ys = pre @ x # post \<Longrightarrow>
   (\<exists>post1. xs = pre @ x # post1 \<and> post = post1 @ ys) \<or> (\<exists>pre2. pre = xs @ pre2 \<and> ys = pre2 @ x # post)"
proof (induction xs arbitrary: pre)
  case Nil
  then show ?case by simp
next
  case (Cons z zs)
  show ?case
  proof (cases pre)
    case Nil
    with Cons.prems show ?thesis by simp
  next
    case (Cons p ps)
    with Cons.prems have "zs @ ys = ps @ x # post" "z = p" by simp_all
    with Cons.IH [of ps] Cons show ?thesis by auto
  qed
qed

lemma bind_io_Rejected: "fst (m tr) = Rejected e \<Longrightarrow> bind_io m f tr = (Rejected e, snd (m tr))"
  by (cases "m tr") (simp add: bind_io_def)

lemma bind_io_Pending: "fst (m tr) = Pending \<Longrightarrow> bind_io m f tr = (Pending, snd (m tr))"
  by (cases "m tr") (simp add: bind_io_def)

lemma fail_stop_bind:
  assumes m: "fail_stop sys m" and f: "\<And>x. fail_stop sys (f x)"
  shows "fail_stop sys (bind_io m f)"
  unfolding fail_stop_def
proof
  fix tr
  from m obtain new1 where n1: "snd (m tr) = tr @ new1"
    and s1: "\<And>pre c a post e. new1 = pre @ Spawn c a # post \<Longrightarrow>
        fst (spawn sys c a (tr @ pre)) = Rejected e \<Longrightarrow>
        fst (m tr) = Rejected e \<and> snd (m tr) = snd (spawn sys c a (tr @ pre))"
    unfolding fail_stop_def by blast
  show "\<exists>new. snd (bind_io m f tr) = tr @ new \<and>
        (\<forall>pre c a post e. new = pre @ Spawn c a # post \<longrightarrow>
            fst (spawn sys c a (tr @ pre)) = Rejected e \<longrightarrow>
            fst (bind_io m f tr) = Rejected e \<and> snd (bind_io m f tr) = snd (spawn sys c a (tr @ pre)))"
  proof (cases "\<exists>x. fst (m tr) = Resolved x")
    case True
    then obtain x where mt: "m tr = (Resolved x, tr @ new1)"
      using n1 by (metis prod.collapse)
    from f [of x] obtain new2 where n2: "snd (f x (tr @ new1)) = (tr @ new1) @ new2"
      and s2: "\<And>pre c a post e. new2 = pre @ Spawn c a # post \<Longrightarrow>
        fst (spawn sys c a ((tr @ new1) @ pre)) = Rejected e \<Longrightarrow>
        fst (f x (tr @ new1)) = Rejected e \<and> snd (f x (tr @ new1)) = snd (spawn sys c a ((tr @ new1) @ pre))"
      unfolding fail_stop_def by blast
    have b: "bind_io m f tr = f x (tr @ new1)" using mt by (simp add: bind_io_def)
    have "snd (bind_io m f tr) = tr @ (new1 @ new2)" using b n2 by simp
    moreover have "fst (bind_io m f tr) = Rejected e \<and> snd (bind_io m f tr) = snd (spawn sys c a (tr @ pre))"
      if d: "new1 @ new2 = pre @ Spawn c a # post" and r: "fst (spawn sys c a (tr @ pre)) = Rejected e"
      for pre c a post e
    proof -
      from append_eq_mid [OF d] consider
        (L) post1 where "new1 = pre @ Spawn c a # post1"
        | (R) pre2 where "pre = new1 @ pre2" "new2 = pre2 @ Spawn c a # post"
        by blast
      then show ?thesis
      proof cases
        case L
        from s1 [OF L r] mt show ?thesis by simp
      next
        case R
        from r R(1) have "fst (spawn sys c a ((tr @ new1) @ pre2)) = Rejected e" by simp
        from s2 [OF R(2) this] show ?thesis using b R(1) by simp
      qed
    qed
    ultimately show ?thesis by blast
  next
    case False
    show ?thesis
    proof (cases "fst (m tr)")
      case (Resolved x)
      with False show ?thesis by simp
    next
      case (Rejected e')
      have b: "bind_io m f tr = (Rejected e', snd (m tr))" using Rejected by (rule bind_io_Rejected)
      have "snd (bind_io m f tr) = tr @ new1" using b n1 by simp
      moreover have "fst (bind_io m f tr) = Rejected e \<and> snd (bind_io m f tr) = snd (spawn sys c a (tr @ pre))"
        if "new1 = pre @ Spawn c a # post" "fst (spawn sys c a (tr @ pre)) = Rejected e" for pre c a post e
        using s1 [OF that] b Rejected by simp
      ultimately show ?thesis by blast
    next
      case Pending
      have b: "bind_io m f tr = (Pending, snd (m tr))" using Pending by (rule bind_io_Pending)
      have "snd (bind_io m f tr) = tr @ new1" using b n1 by simp
      moreover have "fst (bind_io m f tr) = Rejected e \<and> snd (bind_io m f tr) = snd (spawn sys c a (tr @ pre))"
        if "new1 = pre @ Spawn c a # post" "fst (spawn sys c a (tr @ pre)) = Rejected e" for pre c a post e
        using s1 [OF that] Pending by simp
      ultimately show ?thesis by blast
    qed
  qed
qed

lemma calls_in_return: "calls_in S (return_io a)"
  by (simp add: calls_in_def return_io_def)

lemma calls_in_spawn: "Spawn c a \<in> S \<Longrightarrow> StdinEnd \<in> S \<Longrightarrow> calls_in S (spawn sys c a)"
  unfolding calls_in_def
proof
  fix tr
  assume "Spawn c a \<in> S" "StdinEnd \<in> S"
  then show "\<exists>new. snd (spawn sys c a tr) = tr @ new \<and> set new \<subseteq> S"
    by (cases "proc sys (tr @ [Spawn c a])") (simp_all add: spawn_Throws spawn_Child)
qed

lemma calls_in_fsExists: "Exists p \<in> S \<Longrightarrow> calls_in S (fsExists sys p)"
  by (simp add: calls_in_def fsExists_def Let_def)

lemma calls_in_fsEnsureDir: "EnsureDir p \<in> S \<Longrightarrow> calls_in S (fsEnsureDir sys p)"
  by (simp add: calls_in_def fsEnsureDir_def Let_def split: option.splits)

lemma calls_in_fsWriteFile: "WriteFile p d \<in> S \<Longrightarrow> calls_in S (fsWriteFile sys p d)"
  by (simp add: calls_in_def fsWriteFile_def Let_def split: option.splits)

lemma calls_in_bind:
  assumes m: "calls_in S m" and f: "\<And>x. calls_in S (f x)"
  shows "calls_in S (bind_io m f)"
  unfolding calls_in_def
proof
  fix tr
  from m obtain new1 where n1: "snd (m tr) = tr @ new1" "set new1 \<subseteq> S"
    unfolding calls_in_def by blast
  show "\<exists>new. snd (bind_io m f tr) = tr @ new \<and> set new \<subseteq> S"
  proof (cases "\<exists>x. fst (m tr) = Resolved x")
    case True
    then obtain x where mt: "m tr = (Resolved x, tr @ new1)"
      using n1 by (metis prod.collapse)
    from f [of x] obtain new2 where n2: "snd (f x (tr @ new1)) = (tr @ new1) @ new2" "set new2 \<subseteq> S"
      unfolding calls_in_def by blast
    have "bind_io m f tr = f x (tr @ new1)" using mt by (simp add: bind_io_def)
    then have "snd (bind_io m f tr) = tr @ (new1 @ new2)" using n2 by simp
    moreover have "set (new1 @ new2) \<subseteq> S" using n1 n2 by simp
    ultimately show ?thesis by blast
  next
    case False
    then have "snd (bind_io m f tr) = snd (m tr)"
      by (cases "fst (m tr)") (simp_all add: bind_io_Rejected bind_io_Pending)
    then show ?thesis using n1 by simp
  qed
qed

lemma calls_inD: "calls_in S m \<Longrightarrow> m tr = (out, tr') \<Longrightarrow> \<exists>new. tr' = tr @ new \<and> set new \<subseteq> S"
  unfolding calls_in_def by (metis snd_conv)

lemma spawn_then_return:
  "bind_io (spawn sys c a) (\<lambda>x. return_io (g x)) tr =
   (case proc sys (tr @ [Spawn c a]) of
      Throws err \<Rightarrow> (Rejected (SpawnError err), tr @ [Spawn c a])
    | Child evs \<Rightarrow> (map_outcome g (events [] evs), tr @ [Spawn c a, StdinEnd]))"
  by (simp add: bind_io_def spawn_def return_io_def split: spawn_behaviour.splits outcome.splits)

lemma createShortcut_run:
  "createShortcut sys pf tr =
   (case proc sys (tr @ [Spawn (updateDotExe pf) [''--createShortcut'', exeName pf]]) of
      Throws err \<Rightarrow> (Rejected (SpawnError err),
                     tr @ [Spawn (updateDotExe pf) [''--createShortcut'', exeName pf]])
    | Child evs \<Rightarrow> (map_outcome (\<lambda>_. ()) (events [] evs),
                    tr @ [Spawn (updateDotExe pf) [''--createShortcut'', exeName pf], StdinEnd]))"
  by (simp add: createShortcut_def spawnSquirrelUpdate_eq spawn_then_return)

lemma fail_stop_spawnSquirrelUpdate: "fail_stop sys (spawnSquirrelUpdate sys pf command)"
  unfolding spawnSquirrelUpdate_eq
  by (intro fail_stop_bind fail_stop_spawn fail_stop_return)

lemma fail_stop_createShortcut: "fail_stop sys (createShortcut sys pf)"
  by (simp add: createShortcut_def fail_stop_spawnSquirrelUpdate)

lemma fail_stop_updateShortcut: "fail_stop sys (updateShortcut sys pf)"
proof -
  have "fail_stop sys (if exists then createShortcut sys pf else return_io ())" for exists
    by (simp add: createShortcut_def fail_stop_spawnSquirrelUpdate fail_stop_return)
  then show ?thesis
    unfolding updateShortcut_eq
    by (simp add: fail_stop_bind fail_stop_fsExists createShortcut_def fail_stop_spawnSquirrelUpdate)
qed

lemma fail_stop_writeCLITrampoline: "fail_stop sys (writeCLITrampoline sys pf)"
  unfolding writeCLITrampoline_def Let_def
  by (intro fail_stop_bind fail_stop_fsEnsureDir fail_stop_fsWriteFile fail_stop_return)

lemma fail_stop_getPathSegments: "fail_stop sys (getPathSegments sys pf)"
  unfolding getPathSegments_def
  by (intro fail_stop_bind fail_stop_spawn fail_stop_return)

lemma fail_stop_setPathSegments: "fail_stop sys (setPathSegments sys pf paths)"
  unfolding setPathSegments_def
  by (intro fail_stop_bind fail_stop_spawn fail_stop_return)

lemma fail_stop_handleUpdated: "fail_stop sys (handleUpdated sys pf)"
proof -
  have "fail_stop sys (if indexOf paths binPath < 0 then setPathSegments sys pf (paths @ [binPath])
       else return_io ())" for paths binPath
    by (simp add: fail_stop_setPathSegments fail_stop_return)
  then show ?thesis
    unfolding handleUpdated_def
    by (intro fail_stop_bind fail_stop_updateShortcut fail_stop_writeCLITrampoline
        fail_stop_getPathSegments)
qed

lemma fail_stop_handleUninstall: "fail_stop sys (handleUninstall sys pf)"
  unfolding handleUninstall_def Let_def removeShortcut_def
  by (intro fail_stop_bind fail_stop_spawnSquirrelUpdate fail_stop_getPathSegments
      fail_stop_setPathSegments)

lemma fail_stopD:
  assumes "fail_stop sys m" "snd (m tr) = tr @ pre @ Spawn c a # post"
    and "fst (spawn sys c a (tr @ pre)) = Rejected e"
  shows "fst (m tr) = Rejected e \<and> snd (m tr) = snd (spawn sys c a (tr @ pre))"
proof -
  from assms(1) obtain new where n: "snd (m tr) = tr @ new"
    and s: "\<And>pre c a post e. new = pre @ Spawn c a # post \<Longrightarrow>
        fst (spawn sys c a (tr @ pre)) = Rejected e \<Longrightarrow>
        fst (m tr) = Rejected e \<and> snd (m tr) = snd (spawn sys c a (tr @ pre))"
    unfolding fail_stop_def by blast
  from n assms(2) have "new = pre @ Spawn c a # post" by simp
  from s [OF this assms(3)] show ?thesis .
qed

lemma calls_in_createShortcut:
  "calls_in {Spawn (updateDotExe pf) [''--createShortcut'', exeName pf], StdinEnd} (createShortcut sys pf)"
  unfolding createShortcut_def spawnSquirrelUpdate_eq
  by (intro calls_in_bind calls_in_spawn calls_in_return) simp_all

lemma calls_in_mono: "calls_in S m \<Longrightarrow> S \<subseteq> T \<Longrightarrow> calls_in T m"
  unfolding calls_in_def by (meson subset_trans)

lemma calls_in_updateShortcut:
  "calls_in {Exists (desktopShortcutPath pf),
             Spawn (updateDotExe pf) [''--createShortcut'', exeName pf], StdinEnd}
     (updateShortcut sys pf)"
proof -
  let ?S = "{Exists (desktopShortcutPath pf),
             Spawn (updateDotExe pf) [''--createShortcut'', exeName pf], StdinEnd}"
  have c: "calls_in ?S (createShortcut sys pf)"
    by (rule calls_in_mono [OF calls_in_createShortcut]) auto
  then have "calls_in ?S (if exists then createShortcut sys pf else return_io ())" for exists
    by (simp add: calls_in_return)
  then have "calls_in ?S (bind_io (fsExists sys (desktopShortcutPath pf))
        (\<lambda>exists. if exists then createShortcut sys pf else return_io ()))"
    by (intro calls_in_bind calls_in_fsExists) simp_all
  with c show ?thesis unfolding updateShortcut_eq by simp
qed

lemma calls_in_writeCLITrampoline:
  "calls_in (range EnsureDir \<union> range (\<lambda>(p, d). WriteFile p d)) (writeCLITrampoline sys pf)"
  unfolding writeCLITrampoline_def Let_def
  by (intro calls_in_bind calls_in_fsEnsureDir calls_in_fsWriteFile calls_in_return) auto

lemma calls_in_getPathSegments:
  "calls_in {Spawn (powershellPath pf) powershellArgs, StdinEnd} (getPathSegments sys pf)"
  unfolding getPathSegments_def
  by (intro calls_in_bind calls_in_spawn calls_in_return) simp_all

lemma writeCLITrampoline_Resolved:
  "writeCLITrampoline sys pf tr = (Resolved binPath, tr') \<Longrightarrow> binPath = getBinPath pf"
  by (auto simp: writeCLITrampoline_def Let_def bind_io_def return_io_def
      split: prod.splits outcome.splits)

lemma handleUpdated_steps:
  assumes "updateShortcut sys pf tr = (Resolved (), tr1)"
    and "writeCLITrampoline sys pf tr1 = (Resolved binPath, tr2)"
    and "getPathSegments sys pf tr2 = (Resolved paths, tr3)"
  shows "handleUpdated sys pf tr =
           (if binPath \<in> set paths then (Resolved (), tr3)
            else setPathSegments sys pf (paths @ [binPath]) tr3)"
  using assms by (simp add: handleUpdated_def bind_io_def indexOf_neg return_io_def)

lemma setPathSegments_call:
  "snd (setPathSegments sys pf paths tr) ! length tr = Spawn (setxPath pf) [''Path'', join '';'' paths]"
  by (simp add: setPathSegments_def spawn_then_return nth_append split: spawn_behaviour.splits)

lemma no_path_write_before:
  assumes "updateShortcut sys pf tr = (Resolved (), tr1)"
    and "writeCLITrampoline sys pf tr1 = (Resolved binPath, tr2)"
    and "getPathSegments sys pf tr2 = (Resolved paths, tr3)"
  shows "Spawn command [''Path'', v] \<notin> set (drop (length tr) tr3)"
proof -
  from calls_inD [OF calls_in_updateShortcut assms(1)] obtain n1 where
    n1: "tr1 = tr @ n1" "set n1 \<subseteq> {Exists (desktopShortcutPath pf),
             Spawn (updateDotExe pf) [''--createShortcut'', exeName pf], StdinEnd}" by blast
  from calls_inD [OF calls_in_writeCLITrampoline assms(2)] obtain n2 where
    n2: "tr2 = tr1 @ n2" "set n2 \<subseteq> range EnsureDir \<union> range (\<lambda>(p, d). WriteFile p d)" by blast
  from calls_inD [OF calls_in_getPathSegments assms(3)] obtain n3 where
    n3: "tr3 = tr2 @ n3" "set n3 \<subseteq> {Spawn (powershellPath pf) powershellArgs, StdinEnd}" by blast
  have "Spawn command [''Path'', v] \<notin> set n1" using n1(2) by auto
  moreover have "Spawn command [''Path'', v] \<notin> set n2" using n2(2) by auto
  moreover have "Spawn command [''Path'', v] \<notin> set n3" using n3(2) by (auto simp: powershellArgs_def)
  moreover have "drop (length tr) tr3 = n1 @ n2 @ n3" using n1 n2 n3 by simp
  ultimately show ?thesis by simp
qed

subsection \<open>The Path read back\<close>

lemma last_dropWhile: "dropWhile P xs \<noteq> [] \<Longrightarrow> last (dropWhile P xs) = last xs"
  by (induction xs) (auto split: if_splits)

lemma dropWhile_some_append:
  "\<exists>x\<in>set xs. \<not> P x \<Longrightarrow> dropWhile P (xs @ ys) = dropWhile P xs @ ys"
  by (induction xs) auto

lemma dropWhile_some_nonempty: "\<exists>x\<in>set xs. \<not> P x \<Longrightarrow> dropWhile P xs \<noteq> []"
  by (induction xs) auto

lemma length_dropWhile_hd: "xs \<noteq> [] \<Longrightarrow> P (hd xs) \<Longrightarrow> length (dropWhile P xs) < length xs"
proof -
  assume "xs \<noteq> []" "P (hd xs)"
  then obtain y ys where xs: "xs = y # ys" "P y" by (cases xs) auto
  have "length (dropWhile P ys) \<le> length ys" by (rule length_dropWhile_le)
  then show ?thesis using xs by simp
qed

lemma split_semis_last_piece:
  "semicolon \<notin> set b \<Longrightarrow> b \<noteq> [] \<Longrightarrow> p = [] \<or> last p = semicolon
   \<Longrightarrow> b \<in> set (split_semis (p @ b))"
proof (induction p rule: length_induct)
  case (1 p)
  note b = "1.prems"(1,2)
  show ?case
  proof (cases "p = []")
    case True
    have "split_semis b = [b]" using b(1) by (rule split_semis_no_semi)
    then show ?thesis using True by simp
  next
    case False
    with "1.prems"(3) have lp: "last p = semicolon" by simp
    have "last p \<in> set p" using False by (rule last_in_set)
    with lp have inp: "\<exists>x\<in>set p. \<not> x \<noteq> semicolon" by auto
    let ?q = "dropWhile (\<lambda>c. c \<noteq> semicolon) p"
    have rest: "dropWhile (\<lambda>c. c \<noteq> semicolon) (p @ b) = ?q @ b"
      using inp by (rule dropWhile_some_append)
    have qne: "?q \<noteq> []" using inp by (rule dropWhile_some_nonempty)
    have lq: "last ?q = semicolon" using last_dropWhile [OF qne] lp by (rule trans)
    have hq: "hd ?q = semicolon" using hd_dropWhile [OF qne] by simp
    have ne: "dropWhile (\<lambda>c. c \<noteq> semicolon) (p @ b) \<noteq> []" unfolding rest using qne by simp
    have hb: "hd b \<noteq> semicolon" using b by (cases b) auto
    let ?p' = "dropWhile (\<lambda>c. c = semicolon) ?q"
    have lens: "length ?p' < length p"
    proof -
      have "length ?p' < length ?q" using qne hq by (intro length_dropWhile_hd) simp_all
      also have "\<dots> \<le> length p" by (rule length_dropWhile_le)
      finally show ?thesis .
    qed
    have s': "dropWhile (\<lambda>c. c = semicolon) (?q @ b) = ?p' @ b"
    proof (cases "\<forall>x\<in>set ?q. x = semicolon")
      case True
      have 1: "dropWhile (\<lambda>c. c = semicolon) (?q @ b) = dropWhile (\<lambda>c. c = semicolon) b"
        using True by (rule dropWhile_all_append)
      have 2: "dropWhile (\<lambda>c. c = semicolon) b = b"
        using b(2) hb by (rule dropWhile_hd_id)
      have 3: "?p' = []" using True by (simp only: dropWhile_eq_Nil_conv)
      show ?thesis by (simp only: 1 2 3 append_Nil)
    next
      case False
      then have ex: "\<exists>x\<in>set ?q. \<not> x = semicolon" by blast
      show ?thesis using ex by (rule dropWhile_some_append)
    qed
    have pl: "?p' = [] \<or> last ?p' = semicolon"
    proof (cases "?p' = []")
      case True
      then show ?thesis by blast
    next
      case False
      have "last ?p' = last ?q" using False by (rule last_dropWhile)
      then have "last ?p' = semicolon" using lq by (rule trans)
      then show ?thesis by (rule disjI2)
    qed
    have m: "b \<in> set (split_semis (?p' @ b))"
      using "1.IH" [rule_format, OF lens b(1) b(2) pl] .
    have e: "split_semis (p @ b) =
        takeWhile (\<lambda>c. c \<noteq> semicolon) (p @ b) # split_semis (?p' @ b)"
      using split_semis_more [OF ne] unfolding rest s' .
    show ?thesis unfolding e using m by (rule list.set_intros(2))
  qed
qed

lemma is_space_semicolon: "\<not> is_space semicolon"
  by (simp add: is_space_def)

lemma trim_keeps_last_piece:
  assumes "b \<noteq> []" "\<not> is_space (hd b)" "\<not> is_space (last b)" "\<forall>c\<in>set eol. is_space c"
    and "p = [] \<or> last p = semicolon"
  shows "\<exists>p'. trim (p @ b @ eol) = p' @ b \<and> (p' = [] \<or> last p' = semicolon)"
proof -
  have "\<exists>p'. dropWhile is_space (p @ b @ eol) = p' @ b @ eol \<and> (p' = [] \<or> last p' = semicolon)"
  proof (cases "p = []")
    case True
    have "dropWhile is_space (b @ eol) = b @ eol" using assms by (intro dropWhile_hd_id) auto
    then show ?thesis using True by simp
  next
    case False
    with assms(5) have lp: "last p = semicolon" by simp
    with False have ex: "\<exists>x\<in>set p. \<not> is_space x"
      using last_in_set is_space_semicolon by fastforce
    have "dropWhile is_space (p @ b @ eol) = dropWhile is_space p @ b @ eol"
      using ex by (rule dropWhile_some_append)
    moreover have "dropWhile is_space p \<noteq> []" using ex by (rule dropWhile_some_nonempty)
    moreover from this have "last (dropWhile is_space p) = semicolon"
      using lp last_dropWhile [of is_space p] by simp
    ultimately show ?thesis by blast
  qed
  then obtain p' where d: "dropWhile is_space (p @ b @ eol) = p' @ b @ eol"
    and p': "p' = [] \<or> last p' = semicolon" by blast
  have "dropWhile is_space (rev eol @ (rev b @ rev p')) = dropWhile is_space (rev b @ rev p')"
    using assms(4) by (intro dropWhile_all_append) simp
  moreover have "dropWhile is_space (rev b @ rev p') = rev b @ rev p'"
    using assms(1,3) by (intro dropWhile_hd_id) (simp_all add: hd_append hd_rev)
  ultimately have "trim (p @ b @ eol) = p' @ b"
    unfolding trim_def d by simp
  with p' show ?thesis by blast
qed

lemma join_snoc: "join sep (xs @ [b]) = (if xs = [] then b else join sep xs @ sep @ b)"
  by (induction sep xs rule: join.induct) auto

lemma binPath_read_back:
  assumes "b \<noteq> []" "semicolon \<notin> set b" "\<not> is_space (hd b)" "\<not> is_space (last b)"
    and "\<forall>c\<in>set eol. is_space c"
  shows "b \<in> set (parsePathOutput (join '';'' (paths @ [b]) @ eol))"
proof -
  obtain p where j: "join '';'' (paths @ [b]) = p @ b" and p: "p = [] \<or> last p = semicolon"
  proof (cases "paths = []")
    case True
    then have "join '';'' (paths @ [b]) = [] @ b" by simp
    then show ?thesis using that by blast
  next
    case False
    then have "join '';'' (paths @ [b]) = (join '';'' paths @ '';'') @ b" by (simp add: join_snoc)
    then show ?thesis using that [of "join '';'' paths @ '';''"] by simp
  qed
  from trim_keeps_last_piece [OF assms(1,3,4,5) p] obtain p'
    where t: "trim (p @ b @ eol) = p' @ b" and p': "p' = [] \<or> last p' = semicolon" by blast
  have "b \<in> set (split_semis (p' @ b))"
    using assms(2,1) p' by (rule split_semis_last_piece)
  then show ?thesis using assms(1) j t by (simp add: parsePathOutput_def)
qed

lemma storeStep_other: "call \<in> other_calls \<Longrightarrow> storeStep setx current call = current"
  by (auto simp: storeStep_def other_calls_def split: io_call.splits list.splits)

lemma userPath_append_other:
  "set new \<subseteq> other_calls \<Longrightarrow> userPath setx initial (tr @ new) = userPath setx initial tr"
proof (induction new rule: rev_induct)
  case Nil
  show ?case by simp
next
  case (snoc x xs)
  then have "storeStep setx (userPath setx initial (tr @ xs)) x = userPath setx initial (tr @ xs)"
    by (intro storeStep_other) simp
  then show ?case using snoc by (simp add: userPath_def)
qed

lemma userPath_write:
  "userPath setx initial (tr @ [Spawn setx [''Path'', v], StdinEnd]) = v"
  by (simp add: userPath_def storeStep_def)

lemma other_updateShortcut: "calls_in other_calls (updateShortcut sys pf)"
  by (rule calls_in_mono [OF calls_in_updateShortcut]) (auto simp: other_calls_def)

lemma other_writeCLITrampoline: "calls_in other_calls (writeCLITrampoline sys pf)"
  by (rule calls_in_mono [OF calls_in_writeCLITrampoline]) (auto simp: other_calls_def)

lemma other_getPathSegments: "calls_in other_calls (getPathSegments sys pf)"
  by (rule calls_in_mono [OF calls_in_getPathSegments]) (auto simp: other_calls_def powershellArgs_def)

lemma handleUpdated_run_cases:
  assumes run: "handleUpdated sys pf t = (out, t')"
  obtains (stopped) new where "t' = t @ new" "set new \<subseteq> other_calls" "\<forall>x. out \<noteq> Resolved x"
  | (read) t1 b t2 paths t3 where "updateShortcut sys pf t = (Resolved (), t1)"
      "writeCLITrampoline sys pf t1 = (Resolved b, t2)"
      "getPathSegments sys pf t2 = (Resolved paths, t3)"
proof -
  obtain o1 t1 where u: "updateShortcut sys pf t = (o1, t1)" by fastforce
  from calls_inD [OF other_updateShortcut u] obtain n1
    where n1: "t1 = t @ n1" "set n1 \<subseteq> other_calls" by blast
  show thesis
  proof (cases o1)
    case (Rejected e)
    with u run have "out = Rejected e" "t' = t1" by (simp_all add: handleUpdated_def bind_io_def)
    with n1 show thesis by (intro stopped [of n1]) simp_all
  next
    case Pending
    with u run have "out = Pending" "t' = t1" by (simp_all add: handleUpdated_def bind_io_def)
    with n1 show thesis by (intro stopped [of n1]) simp_all
  next
    case (Resolved x)
    with u have u': "updateShortcut sys pf t = (Resolved (), t1)" by simp
    obtain o2 t2 where w: "writeCLITrampoline sys pf t1 = (o2, t2)" by fastforce
    from calls_inD [OF other_writeCLITrampoline w] obtain n2
      where n2: "t2 = t1 @ n2" "set n2 \<subseteq> other_calls" by blast
    show thesis
    proof (cases o2)
      case (Rejected e)
      with u' w run have "out = Rejected e" "t' = t2" by (simp_all add: handleUpdated_def bind_io_def)
      with n1 n2 show thesis by (intro stopped [of "n1 @ n2"]) simp_all
    next
      case Pending
      with u' w run have "out = Pending" "t' = t2" by (simp_all add: handleUpdated_def bind_io_def)
      with n1 n2 show thesis by (intro stopped [of "n1 @ n2"]) simp_all
    next
      case (Resolved b)
      with w have w': "writeCLITrampoline sys pf t1 = (Resolved b, t2)" by simp
      obtain o3 t3 where g: "getPathSegments sys pf t2 = (o3, t3)" by fastforce
      from calls_inD [OF other_getPathSegments g] obtain n3
        where n3: "t3 = t2 @ n3" "set n3 \<subseteq> other_calls" by blast
      show thesis
      proof (cases o3)
        case (Rejected e)
        with u' w' g run have "out = Rejected e" "t' = t3"
          by (simp_all add: handleUpdated_def bind_io_def)
        with n1 n2 n3 show thesis by (intro stopped [of "n1 @ n2 @ n3"]) simp_all
      next
        case Pending
        with u' w' g run have "out = Pending" "t' = t3"
          by (simp_all add: handleUpdated_def bind_io_def)
        with n1 n2 n3 show thesis by (intro stopped [of "n1 @ n2 @ n3"]) simp_all
      next
        case (Resolved paths)
        with g have "getPathSegments sys pf t2 = (Resolved paths, t3)" by simp
        with u' w' show thesis by (rule read)
      qed
    qed
  qed
qed

lemma read_phase:
  assumes reads: "\<forall>t. proc sys (t @ [Spawn (powershellPath pf) powershellArgs])
        = Child [Data (userPath (setxPath pf) initial t @ [CHR 0x0D, CHR 0x0A]), Close (Some 0)]"
    and u: "updateShortcut sys pf t = (Resolved (), t1)"
    and w: "writeCLITrampoline sys pf t1 = (Resolved b, t2)"
    and g: "getPathSegments sys pf t2 = (Resolved paths, t3)"
  shows "b = getBinPath pf"
    and "paths = parsePathOutput (userPath (setxPath pf) initial t @ [CHR 0x0D, CHR 0x0A])"
    and "userPath (setxPath pf) initial t3 = userPath (setxPath pf) initial t"
    and "\<exists>n. t3 = t @ n \<and> set n \<subseteq> other_calls"
proof -
  from calls_inD [OF other_updateShortcut u] obtain n1
    where n1: "t1 = t @ n1" "set n1 \<subseteq> other_calls" by blast
  from calls_inD [OF other_writeCLITrampoline w] obtain n2
    where n2: "t2 = t1 @ n2" "set n2 \<subseteq> other_calls" by blast
  from calls_inD [OF other_getPathSegments g] obtain n3
    where n3: "t3 = t2 @ n3" "set n3 \<subseteq> other_calls" by blast
  have t3: "t3 = t @ (n1 @ n2 @ n3)" "set (n1 @ n2 @ n3) \<subseteq> other_calls"
    using n1 n2 n3 by simp_all
  then show "\<exists>n. t3 = t @ n \<and> set n \<subseteq> other_calls" by blast
  show "userPath (setxPath pf) initial t3 = userPath (setxPath pf) initial t"
    unfolding t3(1) using t3(2) by (rule userPath_append_other)
  show "b = getBinPath pf" using w by (rule writeCLITrampoline_Resolved)
  have t2: "t2 = t @ (n1 @ n2)" "set (n1 @ n2) \<subseteq> other_calls" using n1 n2 by simp_all
  have "userPath (setxPath pf) initial t2 = userPath (setxPath pf) initial t"
    unfolding t2(1) using t2(2) by (rule userPath_append_other)
  moreover have "getPathSegments sys pf t2 =
      (Resolved (parsePathOutput (userPath (setxPath pf) initial t2 @ [CHR 0x0D, CHR 0x0A])),
       t2 @ [Spawn (powershellPath pf) powershellArgs, StdinEnd])"
    using reads by (simp add: getPathSegments_def spawn_then_return)
  ultimately show "paths = parsePathOutput (userPath (setxPath pf) initial t @ [CHR 0x0D, CHR 0x0A])"
    using g by simp
qed

lemma setPathSegments_Resolved:
  "setPathSegments sys pf paths t = (Resolved x, t')
   \<Longrightarrow> t' = t @ [Spawn (setxPath pf) [''Path'', join '';'' paths], StdinEnd]"
  by (auto simp: setPathSegments_def spawn_then_return split: spawn_behaviour.splits)

lemma updated_twice:
  assumes wf: "getBinPath pf \<noteq> []" "semicolon \<notin> set (getBinPath pf)"
      "\<not> is_space (hd (getBinPath pf))" "\<not> is_space (last (getBinPath pf))"
    and reads: "\<forall>t. proc sys (t @ [Spawn (powershellPath pf) powershellArgs])
        = Child [Data (userPath (setxPath pf) initial t @ [CHR 0x0D, CHR 0x0A]), Close (Some 0)]"
    and run1: "handleUpdated sys pf tr = (Resolved (), tr')"
    and run2: "handleUpdated sys pf tr' = (out, tr'')"
  shows "userPath (setxPath pf) initial tr'' = userPath (setxPath pf) initial tr'"
    and "Spawn command [''Path'', v] \<notin> set (drop (length tr') tr'')"
    and "getBinPath pf
           \<in> set (parsePathOutput (userPath (setxPath pf) initial tr' @ [CHR 0x0D, CHR 0x0A]))"
    and "userPath (setxPath pf) initial tr' = userPath (setxPath pf) initial tr \<or>
         userPath (setxPath pf) initial tr' =
           join '';'' (parsePathOutput (userPath (setxPath pf) initial tr @ [CHR 0x0D, CHR 0x0A])
                       @ [getBinPath pf])"
proof -
  let ?U = "userPath (setxPath pf) initial"
  let ?eol = "[CHR 0x0D, CHR 0x0A]"
  let ?bin = "getBinPath pf"
  have eol: "\<forall>c\<in>set ?eol. is_space c" by (simp add: is_space_def)
  have first: "?bin \<in> set (parsePathOutput (?U tr' @ ?eol)) \<and>
      (?U tr' = ?U tr \<or> ?U tr' = join '';'' (parsePathOutput (?U tr @ ?eol) @ [?bin]))"
    using run1
  proof (cases rule: handleUpdated_run_cases)
    case (stopped new)
    then show ?thesis by simp
  next
    case (read t1 b t2 paths t3)
    note ph = read_phase [OF reads read]
    note st = handleUpdated_steps [OF read]
    show ?thesis
    proof (cases "b \<in> set paths")
      case True
      with st run1 have "tr' = t3" by simp
      with ph True show ?thesis by simp
    next
      case False
      with st run1 have "setPathSegments sys pf (paths @ [b]) t3 = (Resolved (), tr')" by simp
      then have "tr' = t3 @ [Spawn (setxPath pf) [''Path'', join '';'' (paths @ [b])], StdinEnd]"
        by (rule setPathSegments_Resolved)
      then have u: "?U tr' = join '';'' (paths @ [?bin])"
        using ph(1) by (simp add: userPath_write)
      have "?bin \<in> set (parsePathOutput (join '';'' (paths @ [?bin]) @ ?eol))"
        using wf eol by (rule binPath_read_back)
      with u ph(2) show ?thesis by simp
    qed
  qed
  then show "?bin \<in> set (parsePathOutput (?U tr' @ ?eol))"
    and "?U tr' = ?U tr \<or> ?U tr' = join '';'' (parsePathOutput (?U tr @ ?eol) @ [?bin])"
    by simp_all
  have second: "\<exists>new. tr'' = tr' @ new \<and> set new \<subseteq> other_calls"
    using run2
  proof (cases rule: handleUpdated_run_cases)
    case (stopped new)
    then show ?thesis by blast
  next
    case (read t1 b t2 paths t3)
    note ph = read_phase [OF reads read]
    from ph(1,2) first have "b \<in> set paths" by simp
    with handleUpdated_steps [OF read] run2 have "tr'' = t3" by simp
    with ph(4) show ?thesis by simp
  qed
  then obtain new where new: "tr'' = tr' @ new" "set new \<subseteq> other_calls" by blast
  show "?U tr'' = ?U tr'" unfolding new(1) using new(2) by (rule userPath_append_other)
  show "Spawn command [''Path'', v] \<notin> set (drop (length tr') tr'')"
    using new by (auto simp: other_calls_def)
qed

section \<open>The claims\<close>

subsection \<open>Reading the Path\<close>

text \<open>
  Claim C5. \<open>getPathSegments\<close> resolves exactly when PowerShell closes with code zero,
  and then with the parse (lines 159 to 162) of the text captured on its standard
  output, the chunks put end to end. For every captured output, the parse trims the
  surrounding whitespace, splits on runs of one or more semicolons and drops the empty
  segments. Every returned segment is non-empty and holds no semicolon, and the
  segments, put end to end, are the trimmed text without its semicolons, so nothing is
  lost or reordered. More precisely: when the output is a text \<open>core\<close> between two runs of
  whitespace, \<open>core\<close> neither starting nor ending with whitespace, and \<open>core\<close> is a first
  piece \<open>x0\<close> (possibly empty), then segments each after one or more semicolons, then
  any number of semicolons, the result is exactly those pieces in that order, \<open>x0\<close> left
  out when it is empty. The output \<^verbatim>\<open>" C:\A;;C:\B; "\<close> parses to \<^verbatim>\<open>["C:\A", "C:\B"]\<close>.
\<close>

theorem C5_parse:
  "(\<forall>segment\<in>set (parsePathOutput stdout). segment \<noteq> [] \<and> semicolon \<notin> set segment) \<and>
   concat (parsePathOutput stdout) = filter (\<lambda>c. c \<noteq> semicolon) (trim stdout) \<and>
   ((\<forall>c\<in>set ws1. is_space c) \<and> (\<forall>c\<in>set ws2. is_space c) \<and>
    (core \<noteq> [] \<longrightarrow> \<not> is_space (hd core) \<and> \<not> is_space (last core)) \<and>
    core = x0 @ concat (map (\<lambda>(n, seg). replicate (Suc n) semicolon @ seg) ps) @ replicate m semicolon \<and>
    semicolon \<notin> set x0 \<and> (\<forall>(n, seg)\<in>set ps. seg \<noteq> [] \<and> semicolon \<notin> set seg)
    \<longrightarrow> parsePathOutput (ws1 @ core @ ws2) = (if x0 = [] then [] else [x0]) @ map snd ps) \<and>
   parsePathOutput ('' '' @ dirA @ '';;'' @ dirB @ ''; '') = [dirA, dirB] \<and>
   (proc sys (tr @ [Spawn (powershellPath pf) powershellArgs])
      = Child (map Data ds @ Close (Some 0) # rest)
    \<longrightarrow> getPathSegments sys pf tr
          = (Resolved (parsePathOutput (concat ds)),
             tr @ [Spawn (powershellPath pf) powershellArgs, StdinEnd])) \<and>
   (fst (getPathSegments sys pf tr) = Resolved segments
    \<longrightarrow> (\<exists>ds rest. proc sys (tr @ [Spawn (powershellPath pf) powershellArgs])
                      = Child (map Data ds @ Close (Some 0) # rest)
                    \<and> segments = parsePathOutput (concat ds)) \<and>
        (\<forall>segment\<in>set segments. segment \<noteq> [] \<and> semicolon \<notin> set segment))"
proof (intro conjI impI)
  show p: "\<forall>segment\<in>set (parsePathOutput stdout). segment \<noteq> [] \<and> semicolon \<notin> set segment"
    for stdout
    by (auto simp: parsePathOutput_def dest: split_semis_pieces)
  have "concat (filter (\<lambda>s. s \<noteq> []) xs) = concat xs" for xs :: "string list"
    by (induction xs) auto
  then show "concat (parsePathOutput stdout) = filter (\<lambda>c. c \<noteq> semicolon) (trim stdout)"
    by (simp add: parsePathOutput_def concat_split_semis)
  show "parsePathOutput ('' '' @ dirA @ '';;'' @ dirB @ ''; '') = [dirA, dirB]"
    by code_simp
  {
    assume a: "(\<forall>c\<in>set ws1. is_space c) \<and> (\<forall>c\<in>set ws2. is_space c) \<and>
      (core \<noteq> [] \<longrightarrow> \<not> is_space (hd core) \<and> \<not> is_space (last core)) \<and>
      core = x0 @ concat (map (\<lambda>(n, seg). replicate (Suc n) semicolon @ seg) ps) @ replicate m semicolon \<and>
      semicolon \<notin> set x0 \<and> (\<forall>(n, seg)\<in>set ps. seg \<noteq> [] \<and> semicolon \<notin> set seg)"
    then have t: "trim (ws1 @ core @ ws2) = core" by (intro trim_core) auto
    have s: "split_semis core = x0 # map snd ps @ (if m = 0 then [] else [[]])"
      using a split_semis_layout [of x0 ps m] by simp
    have "filter (\<lambda>s. length s \<noteq> 0) (map snd ps) = map snd ps"
      using a by (auto simp: filter_id_conv)
    then show "parsePathOutput (ws1 @ core @ ws2) = (if x0 = [] then [] else [x0]) @ map snd ps"
      by (simp add: parsePathOutput_def t s)
  }
  {
    assume "proc sys (tr @ [Spawn (powershellPath pf) powershellArgs])
      = Child (map Data ds @ Close (Some 0) # rest)"
    then show "getPathSegments sys pf tr
          = (Resolved (parsePathOutput (concat ds)),
             tr @ [Spawn (powershellPath pf) powershellArgs, StdinEnd])"
      by (simp add: getPathSegments_def spawn_then_return events_Data)
  }
  {
    assume r: "fst (getPathSegments sys pf tr) = Resolved segments"
    show e: "\<exists>ds rest. proc sys (tr @ [Spawn (powershellPath pf) powershellArgs])
                      = Child (map Data ds @ Close (Some 0) # rest)
                    \<and> segments = parsePathOutput (concat ds)"
    proof (cases "proc sys (tr @ [Spawn (powershellPath pf) powershellArgs])")
      case (Throws err)
      with r show ?thesis by (simp add: getPathSegments_def spawn_then_return)
    next
      case (Child evs)
      with r obtain stdout where ev: "events [] evs = Resolved stdout"
        and sg: "segments = parsePathOutput stdout"
        by (cases "events [] evs") (auto simp: getPathSegments_def spawn_then_return)
      from events_Resolved [OF ev] sg Child show ?thesis by auto
    qed
    then show "\<forall>segment\<in>set segments. segment \<noteq> [] \<and> semicolon \<notin> set segment"
      using p by blast
  }
qed

text \<open>
  The instance of C5 at the output \<^verbatim>\<open>" C:\A;;C:\B; "\<close>, parsed, and read by
  \<open>getPathSegments\<close> from a PowerShell that prints it in two chunks.
\<close>

theorem C5_parse_witness:
  "parsePathOutput ('' '' @ (dirA @ '';;'' @ dirB @ '';'') @ '' '') = [dirA, dirB] \<and>
   concat (parsePathOutput ('' '' @ (dirA @ '';;'' @ dirB @ '';'') @ '' '')) = dirA @ dirB \<and>
   getPathSegments
     \<lparr>proc = (\<lambda>tr. Child [Data ('' '' @ dirA @ '';;''), Data (dirB @ ''; ''), Close (Some 0)]),
      fileExists = (\<lambda>tr. True), fsError = (\<lambda>tr. None)\<rparr> sample_platform []
     = (Resolved [dirA, dirB], [Spawn ''powershell.exe'' powershellArgs, StdinEnd])"
proof -
  let ?sys = "\<lparr>proc = (\<lambda>tr :: trace. Child [Data ('' '' @ dirA @ '';;''), Data (dirB @ ''; ''), Close (Some 0)]),
      fileExists = (\<lambda>tr. True), fsError = (\<lambda>tr. None)\<rparr>"
  have 1: "parsePathOutput ('' '' @ (dirA @ '';;'' @ dirB @ '';'') @ '' '')
        = (if dirA = [] then [] else [dirA]) @ map snd [(1 :: nat, dirB)]"
    using C5_parse [of "'' '' @ (dirA @ '';;'' @ dirB @ '';'') @ '' ''" "'' ''" "'' ''"
        "dirA @ '';;'' @ dirB @ '';''" dirA "[(1, dirB)]" 1]
    by (simp add: is_space_def)
  have p: "powershellPath sample_platform = ''powershell.exe''"
    by (simp add: powershellPath_def sample_platform_def)
  have "proc ?sys ([] @ [Spawn (powershellPath sample_platform) powershellArgs])
      = Child (map Data ['' '' @ dirA @ '';;'', dirB @ ''; ''] @ Close (Some 0) # [])"
    by simp
  with C5_parse [where sys = ?sys and pf = sample_platform and tr = "[]"
      and ds = "['' '' @ dirA @ '';;'', dirB @ ''; '']" and rest = "[]"]
  have "getPathSegments ?sys sample_platform []
      = (Resolved (parsePathOutput (concat ['' '' @ dirA @ '';;'', dirB @ ''; ''])),
         [] @ [Spawn (powershellPath sample_platform) powershellArgs, StdinEnd])"
    by blast
  moreover have "parsePathOutput (concat ['' '' @ dirA @ '';;'', dirB @ ''; '']) = [dirA, dirB]"
    by code_simp
  ultimately have 2: "getPathSegments ?sys sample_platform []
      = (Resolved [dirA, dirB], [Spawn ''powershell.exe'' powershellArgs, StdinEnd])"
    unfolding p by simp
  from 1 2 show ?thesis by simp
qed

text \<open>
  Claim C10. The writer hands \<^verbatim>\<open>setx\<close> the segments joined by semicolons
  (\<open>setPathSegments\<close>, line 176), and for every list of segments that are non-empty,
  hold no semicolon and neither start nor end with whitespace, the reader's parse of
  that joined text is the list itself; so \<open>getPathSegments\<close> resolves with the list
  when PowerShell prints that text and exits with code zero.
\<close>

theorem C10_roundtrip:
  assumes "\<forall>segment\<in>set segs. segment \<noteq> [] \<and> semicolon \<notin> set segment \<and>
             \<not> is_space (hd segment) \<and> \<not> is_space (last segment)"
  shows "snd (setPathSegments sys pf segs tr) ! length tr = Spawn (setxPath pf) [''Path'', join '';'' segs] \<and>
         parsePathOutput (join '';'' segs) = segs \<and>
         (proc sys (tr' @ [Spawn (powershellPath pf) powershellArgs])
            = Child [Data (join '';'' segs), Close (Some 0)]
          \<longrightarrow> fst (getPathSegments sys pf tr') = Resolved segs)"
proof (intro conjI impI)
  show "snd (setPathSegments sys pf segs tr) ! length tr = Spawn (setxPath pf) [''Path'', join '';'' segs]"
    by (simp add: setPathSegments_def spawn_then_return nth_append split: spawn_behaviour.splits)
next
  show p: "parsePathOutput (join '';'' segs) = segs" using assms by (rule parse_join)
  assume "proc sys (tr' @ [Spawn (powershellPath pf) powershellArgs])
            = Child [Data (join '';'' segs), Close (Some 0)]"
  then show "fst (getPathSegments sys pf tr') = Resolved segs"
    by (simp add: getPathSegments_def bind_io_def spawn_Child return_io_def p)
qed

text \<open>The instance of C10 at the segments \<^verbatim>\<open>["C:\A", "C:\bin"]\<close>.\<close>

theorem C10_roundtrip_witness:
  "snd (setPathSegments (sample_system [] (\<lambda>c. 0)) sample_platform [dirA, dirBin] []) ! 0
     = Spawn ''setx.exe'' [''Path'', dirA @ '';'' @ dirBin] \<and>
   parsePathOutput (dirA @ '';'' @ dirBin) = [dirA, dirBin] \<and>
   fst (getPathSegments
          \<lparr>proc = (\<lambda>tr. Child [Data (dirA @ '';'' @ dirBin), Close (Some 0)]),
           fileExists = (\<lambda>tr. True), fsError = (\<lambda>tr. None)\<rparr> sample_platform [])
     = Resolved [dirA, dirBin]"
proof -
  let ?sys = "\<lparr>proc = (\<lambda>tr :: trace. Child [Data (dirA @ '';'' @ dirBin), Close (Some 0)]),
           fileExists = (\<lambda>tr. True), fsError = (\<lambda>tr. None)\<rparr>"
  have 1: "snd (setPathSegments (sample_system [] (\<lambda>c. 0)) sample_platform [dirA, dirBin] []) ! 0
     = Spawn ''setx.exe'' [''Path'', dirA @ '';'' @ dirBin] \<and>
   parsePathOutput (dirA @ '';'' @ dirBin) = [dirA, dirBin]"
    using C10_roundtrip [of "[dirA, dirBin]" "sample_system [] (\<lambda>c. 0)" sample_platform "[]" "[]"]
    by (simp add: is_space_def setxPath_def sample_platform_def)
  have 2: "fst (getPathSegments ?sys sample_platform []) = Resolved [dirA, dirBin]"
    using C10_roundtrip [of "[dirA, dirBin]" ?sys sample_platform "[]" "[]"]
    by (simp add: is_space_def)
  from 1 2 show ?thesis by simp
qed

subsection \<open>The spawner\<close>

text \<open>
  Claim C6. For every spawned command, \<open>spawn\<close> resolves, with the text captured on
  standard output, if and only if the child closes with exit code zero before any
  \<^verbatim>\<open>error\<close> event: the events of the child are then chunks \<open>ds\<close>, \<^verbatim>\<open>close\<close> with code 0,
  and whatever follows, and the text is the chunks put end to end. When it closes with
  any other code, \<open>spawn\<close> is rejected with the "command failed" error that carries the
  text captured up to there. When the process cannot be started, \<^verbatim>\<open>ChildProcess.spawn\<close>
  throwing or the child emitting \<^verbatim>\<open>error\<close>, \<open>spawn\<close> is rejected with that error, not with
  "command failed", whatever \<^verbatim>\<open>close\<close> follows.
\<close>

theorem C6_spawn:
  "(fst (spawn sys command args tr) = Resolved out \<longleftrightarrow>
      (\<exists>ds rest. proc sys (tr @ [Spawn command args]) = Child (map Data ds @ Close (Some 0) # rest)
         \<and> out = concat ds)) \<and>
   (proc sys (tr @ [Spawn command args]) = Child (map Data ds @ Close code # rest) \<and> code \<noteq> Some 0
      \<longrightarrow> fst (spawn sys command args tr) = Rejected (CommandFailed (concat ds))) \<and>
   (proc sys (tr @ [Spawn command args]) = Throws err
      \<longrightarrow> fst (spawn sys command args tr) = Rejected (SpawnError err)) \<and>
   (proc sys (tr @ [Spawn command args]) = Child (map Data ds @ Error err # rest)
      \<longrightarrow> fst (spawn sys command args tr) = Rejected (SpawnError err))"
proof (intro conjI impI iffI)
  assume r: "fst (spawn sys command args tr) = Resolved out"
  show "\<exists>ds rest. proc sys (tr @ [Spawn command args]) = Child (map Data ds @ Close (Some 0) # rest)
         \<and> out = concat ds"
  proof (cases "proc sys (tr @ [Spawn command args])")
    case (Throws err)
    with r show ?thesis by (simp add: spawn_Throws)
  next
    case (Child evs)
    with r have "events [] evs = Resolved out" by (simp add: spawn_Child)
    from events_Resolved [OF this] Child show ?thesis by simp
  qed
next
  assume "\<exists>ds rest. proc sys (tr @ [Spawn command args]) = Child (map Data ds @ Close (Some 0) # rest)
         \<and> out = concat ds"
  then show "fst (spawn sys command args tr) = Resolved out"
    by (auto simp: spawn_Child events_Data)
next
  assume "proc sys (tr @ [Spawn command args]) = Child (map Data ds @ Close code # rest) \<and> code \<noteq> Some 0"
  then show "fst (spawn sys command args tr) = Rejected (CommandFailed (concat ds))"
    by (simp add: spawn_Child events_Data)
next
  assume "proc sys (tr @ [Spawn command args]) = Throws err"
  then show "fst (spawn sys command args tr) = Rejected (SpawnError err)"
    by (simp add: spawn_Throws)
next
  assume "proc sys (tr @ [Spawn command args]) = Child (map Data ds @ Error err # rest)"
  then show "fst (spawn sys command args tr) = Rejected (SpawnError err)"
    by (simp add: spawn_Child events_Data)
qed

text \<open>
  Instances of C6: exit code 0 after two chunks; exit code 1 after one chunk;
  \<^verbatim>\<open>ChildProcess.spawn\<close> throwing; an \<^verbatim>\<open>error\<close> event followed by \<^verbatim>\<open>close\<close> with a
  negative code, as Node reports an executable that is not found.
\<close>

theorem C6_spawn_witness:
  "fst (spawn \<lparr>proc = (\<lambda>tr. Child [Data ''ab'', Data ''c'', Close (Some 0)]),
               fileExists = (\<lambda>tr. True), fsError = (\<lambda>tr. None)\<rparr> ''setx.exe'' [''Path'', dirA] [])
     = Resolved ''abc'' \<and>
   fst (spawn \<lparr>proc = (\<lambda>tr. Child [Data ''ab'', Close (Some 1), Data ''c'']),
               fileExists = (\<lambda>tr. True), fsError = (\<lambda>tr. None)\<rparr> ''setx.exe'' [''Path'', dirA] [])
     = Rejected (CommandFailed ''ab'') \<and>
   fst (spawn \<lparr>proc = (\<lambda>tr. Throws ''EINVAL''),
               fileExists = (\<lambda>tr. True), fsError = (\<lambda>tr. None)\<rparr> ''setx.exe'' [''Path'', dirA] [])
     = Rejected (SpawnError ''EINVAL'') \<and>
   fst (spawn \<lparr>proc = (\<lambda>tr. Child [Error ''ENOENT'', Close (Some (- 2))]),
               fileExists = (\<lambda>tr. True), fsError = (\<lambda>tr. None)\<rparr> ''setx.exe'' [''Path'', dirA] [])
     = Rejected (SpawnError ''ENOENT'')"
proof -
  let ?sys = "\<lambda>b. \<lparr>proc = (\<lambda>tr :: trace. b), fileExists = (\<lambda>tr. True), fsError = (\<lambda>tr. None)\<rparr>"
  have 1: "fst (spawn (?sys (Child [Data ''ab'', Data ''c'', Close (Some 0)])) ''setx.exe'' [''Path'', dirA] [])
     = Resolved ''abc''"
  proof -
    have "\<exists>ds rest. [Data ''ab'', Data ''c'', Close (Some 0)] = map Data ds @ Close (Some 0) # rest \<and> ''abc'' = concat ds"
      by (rule exI [of _ "[''ab'', ''c'']"], rule exI [of _ "[]"]) simp
    then show ?thesis
      using C6_spawn [of "?sys (Child [Data ''ab'', Data ''c'', Close (Some 0)])" "''setx.exe''"
          "[''Path'', dirA]" "[]" "''abc''"]
      by simp
  qed
  have 2: "fst (spawn (?sys (Child [Data ''ab'', Close (Some 1), Data ''c''])) ''setx.exe'' [''Path'', dirA] [])
     = Rejected (CommandFailed ''ab'')"
    using C6_spawn [of "?sys (Child [Data ''ab'', Close (Some 1), Data ''c''])" "''setx.exe''"
          "[''Path'', dirA]" "[]" _ "[''ab'']" "Some 1" "[Data ''c'']"]
    by simp
  have 3: "fst (spawn (?sys (Throws ''EINVAL'')) ''setx.exe'' [''Path'', dirA] [])
     = Rejected (SpawnError ''EINVAL'')"
    using C6_spawn [of "?sys (Throws ''EINVAL'')" "''setx.exe''" "[''Path'', dirA]" "[]" _ _ _ _ "''EINVAL''"]
    by simp
  have 4: "fst (spawn (?sys (Child [Error ''ENOENT'', Close (Some (- 2))])) ''setx.exe'' [''Path'', dirA] [])
     = Rejected (SpawnError ''ENOENT'')"
    using C6_spawn [of "?sys (Child [Error ''ENOENT'', Close (Some (- 2))])" "''setx.exe''"
          "[''Path'', dirA]" "[]" _ "[]" _ "[Close (Some (- 2))]" "''ENOENT''"]
    by simp
  from 1 2 3 4 show ?thesis by simp
qed

subsection \<open>The dispatcher\<close>

text \<open>
  Claim C4. \<open>handleSquirrelEvent\<close> recognises exactly the four tokens
  \<^verbatim>\<open>--squirrel-install\<close>, \<^verbatim>\<open>--squirrel-updated\<close>, \<^verbatim>\<open>--squirrel-uninstall\<close> and
  \<^verbatim>\<open>--squirrel-obsolete\<close>: for every other event name it returns \<^verbatim>\<open>null\<close> and leaves the
  trace as it was, for each of the four it returns a promise, and for
  \<^verbatim>\<open>--squirrel-obsolete\<close> the promise is already resolved and the trace is as it was.
\<close>

theorem C4_dispatcher:
  "(eventName \<notin> {''--squirrel-install'', ''--squirrel-updated'', ''--squirrel-uninstall'',
                  ''--squirrel-obsolete''}
      \<longrightarrow> handleSquirrelEvent sys pf eventName tr = (None, tr)) \<and>
   (eventName \<in> {''--squirrel-install'', ''--squirrel-updated'', ''--squirrel-uninstall'',
                  ''--squirrel-obsolete''}
      \<longrightarrow> fst (handleSquirrelEvent sys pf eventName tr) \<noteq> None) \<and>
   handleSquirrelEvent sys pf ''--squirrel-obsolete'' tr = (Some (Resolved ()), tr)"
  by (simp add: handleSquirrelEvent_def started_def)

text \<open>
  Instances of C4: \<^verbatim>\<open>--squirrel-firstrun\<close>, an event of Squirrel the module does not
  handle, and \<^verbatim>\<open>--squirrel-uninstall\<close>.
\<close>

theorem C4_dispatcher_witness:
  "handleSquirrelEvent (sample_system dirA (\<lambda>c. 0)) sample_platform ''--squirrel-firstrun'' [] = (None, []) \<and>
   fst (handleSquirrelEvent (sample_system dirA (\<lambda>c. 0)) sample_platform ''--squirrel-uninstall'' []) \<noteq> None"
  using C4_dispatcher [of "''--squirrel-firstrun''" "sample_system dirA (\<lambda>c. 0)" sample_platform "[]"]
    C4_dispatcher [of "''--squirrel-uninstall''" "sample_system dirA (\<lambda>c. 0)" sample_platform "[]"]
  by simp

subsection \<open>Shortcuts\<close>

text \<open>
  Claim C7. \<open>updateShortcut\<close>: when the home directory is known and the desktop
  shortcut does not exist, the only call is the test for the file, and no command is
  spawned; when it exists, \<open>updateShortcut\<close> goes on as \<open>createShortcut\<close> does; when the
  home directory is not known (the empty string), it is \<open>createShortcut\<close> at once. And
  \<open>createShortcut\<close> spawns exactly one command, \<^verbatim>\<open>Update.exe --createShortcut\<close> with the
  name of the executable, followed only by the closing of its standard input.
\<close>

theorem C7_updateShortcut:
  "(homedir pf \<noteq> [] \<and> \<not> fileExists sys (tr @ [Exists (desktopShortcutPath pf)])
      \<longrightarrow> updateShortcut sys pf tr = (Resolved (), tr @ [Exists (desktopShortcutPath pf)])) \<and>
   (homedir pf \<noteq> [] \<and> fileExists sys (tr @ [Exists (desktopShortcutPath pf)])
      \<longrightarrow> updateShortcut sys pf tr = createShortcut sys pf (tr @ [Exists (desktopShortcutPath pf)])) \<and>
   (homedir pf = [] \<longrightarrow> updateShortcut sys pf tr = createShortcut sys pf tr) \<and>
   snd (createShortcut sys pf tr') =
     tr' @ Spawn (updateDotExe pf) [''--createShortcut'', exeName pf] #
       (case proc sys (tr' @ [Spawn (updateDotExe pf) [''--createShortcut'', exeName pf]]) of
          Throws err \<Rightarrow> [] | Child evs \<Rightarrow> [StdinEnd])"
  by (simp add: updateShortcut_eq fsExists_def bind_io_def return_io_def createShortcut_run
      split: spawn_behaviour.splits)

text \<open>
  Instances of C7: the shortcut does not exist; the shortcut exists; the home directory
  is the empty string.
\<close>

theorem C7_updateShortcut_witness:
  "updateShortcut (sample_system dirA (\<lambda>c. 0) \<lparr>fileExists := (\<lambda>tr. False)\<rparr>) sample_platform []
     = (Resolved (), [Exists (desktopShortcutPath sample_platform)]) \<and>
   snd (updateShortcut (sample_system dirA (\<lambda>c. 0)) sample_platform [])
     = [Exists (desktopShortcutPath sample_platform),
        Spawn (updateDotExe sample_platform) [''--createShortcut'', exeName sample_platform], StdinEnd] \<and>
   snd (updateShortcut (sample_system dirA (\<lambda>c. 0)) (sample_platform \<lparr>homedir := []\<rparr>) [])
     = [Spawn (updateDotExe sample_platform) [''--createShortcut'', exeName sample_platform], StdinEnd]"
proof -
  have u: "updateDotExe (sample_platform \<lparr>homedir := []\<rparr>) = updateDotExe sample_platform"
    "exeName (sample_platform \<lparr>homedir := []\<rparr>) = exeName sample_platform"
    by (simp_all add: updateDotExe_def exeName_def)
  have 1: "updateShortcut (sample_system dirA (\<lambda>c. 0) \<lparr>fileExists := (\<lambda>tr. False)\<rparr>) sample_platform []
     = (Resolved (), [Exists (desktopShortcutPath sample_platform)])"
    using C7_updateShortcut [of sample_platform "sample_system dirA (\<lambda>c. 0) \<lparr>fileExists := (\<lambda>tr. False)\<rparr>" "[]"]
    by (simp add: sample_platform_def)
  have 2: "snd (updateShortcut (sample_system dirA (\<lambda>c. 0)) sample_platform [])
     = [Exists (desktopShortcutPath sample_platform),
        Spawn (updateDotExe sample_platform) [''--createShortcut'', exeName sample_platform], StdinEnd]"
    using C7_updateShortcut [of sample_platform "sample_system dirA (\<lambda>c. 0)" "[]"
        "[Exists (desktopShortcutPath sample_platform)]"]
    by (simp add: sample_platform_def sample_system_def)
  have 3: "snd (updateShortcut (sample_system dirA (\<lambda>c. 0)) (sample_platform \<lparr>homedir := []\<rparr>) [])
     = [Spawn (updateDotExe sample_platform) [''--createShortcut'', exeName sample_platform], StdinEnd]"
    using C7_updateShortcut [of "sample_platform \<lparr>homedir := []\<rparr>" "sample_system dirA (\<lambda>c. 0)" "[]" "[]"]
    by (simp add: u sample_system_def)
  from 1 2 3 show ?thesis by simp
qed

subsection \<open>Install\<close>

text \<open>
  Claim C9. Handling \<^verbatim>\<open>--squirrel-install\<close> is \<open>createShortcut\<close> and nothing else: the
  calls it adds to the trace are the one spawn of \<^verbatim>\<open>Update.exe --createShortcut\<close> and
  the closing of its standard input. Among them there is no read of the Path (the
  PowerShell command), no write of the Path (\<^verbatim>\<open>setx Path ...\<close>), and no \<^verbatim>\<open>ensureDir\<close> or
  \<^verbatim>\<open>writeFile\<close>, so the trampoline is not written.
\<close>

theorem C9_install:
  "handleSquirrelEvent sys pf ''--squirrel-install'' tr = started (createShortcut sys pf tr) \<and>
   snd (handleSquirrelEvent sys pf ''--squirrel-install'' tr) =
     tr @ Spawn (updateDotExe pf) [''--createShortcut'', exeName pf] #
       (case proc sys (tr @ [Spawn (updateDotExe pf) [''--createShortcut'', exeName pf]]) of
          Throws err \<Rightarrow> [] | Child evs \<Rightarrow> [StdinEnd]) \<and>
   Spawn (powershellPath pf) powershellArgs
     \<notin> set (drop (length tr) (snd (handleSquirrelEvent sys pf ''--squirrel-install'' tr))) \<and>
   (\<forall>paths. Spawn (setxPath pf) [''Path'', join '';'' paths]
     \<notin> set (drop (length tr) (snd (handleSquirrelEvent sys pf ''--squirrel-install'' tr)))) \<and>
   (\<forall>path. EnsureDir path
     \<notin> set (drop (length tr) (snd (handleSquirrelEvent sys pf ''--squirrel-install'' tr)))) \<and>
   (\<forall>path content. WriteFile path content
     \<notin> set (drop (length tr) (snd (handleSquirrelEvent sys pf ''--squirrel-install'' tr))))"
  by (simp add: handleSquirrelEvent_def started_def createShortcut_run powershellArgs_def
      split: spawn_behaviour.splits)

text \<open>The instance of C9 on the sample system.\<close>

theorem C9_install_witness:
  "snd (handleSquirrelEvent (sample_system dirA (\<lambda>c. 0)) sample_platform ''--squirrel-install'' [])
     = [Spawn (updateDotExe sample_platform) [''--createShortcut'', exeName sample_platform], StdinEnd]"
proof -
  have "proc (sample_system dirA (\<lambda>c. 0))
      [Spawn (updateDotExe sample_platform) [''--createShortcut'', exeName sample_platform]]
    = Child [Close (Some 0)]"
    by code_simp
  then show ?thesis
    using C9_install [THEN conjunct2, THEN conjunct1, of "sample_system dirA (\<lambda>c. 0)" sample_platform "[]"]
    by simp
qed

subsection \<open>Failures stop the handler\<close>

text \<open>
  Claim C8. For every event name, so for each of the three handlers, and for every
  spawn in the run of the handler: when the spawned command closes with a code other
  than zero (the first event of the child that is not a chunk), the promise of the
  handler is rejected, with the "command failed" error of that command, and after
  that spawn the trace holds nothing but the closing of its standard input: no later
  spawn, no file system call, no write of the Path.
\<close>

theorem C8_fail_stop:
  assumes "snd (handleSquirrelEvent sys pf eventName tr) = tr @ pre @ Spawn c a # post"
    and "proc sys (tr @ pre @ [Spawn c a]) = Child (map Data ds @ Close code # rest)"
    and "code \<noteq> Some 0"
  shows "fst (handleSquirrelEvent sys pf eventName tr) = Some (Rejected (CommandFailed (concat ds))) \<and>
         post = [StdinEnd]"
proof -
  have sp: "spawn sys c a (tr @ pre) =
      (Rejected (CommandFailed (concat ds)), tr @ pre @ [Spawn c a, StdinEnd])"
    using assms(2,3) spawn_Child [of sys "tr @ pre" c a] by (simp add: events_Data)
  have key: "fst (h tr) = Rejected (CommandFailed (concat ds)) \<and> post = [StdinEnd]"
    if "fail_stop sys h" "snd (h tr) = tr @ pre @ Spawn c a # post" for h :: "unit io"
  proof -
    from fail_stopD [OF that, of "CommandFailed (concat ds)"] sp
    have "fst (h tr) = Rejected (CommandFailed (concat ds))" "snd (h tr) = tr @ pre @ [Spawn c a, StdinEnd]"
      by simp_all
    with that(2) show ?thesis by simp
  qed
  consider (install) "eventName = ''--squirrel-install''"
    | (updated) "eventName = ''--squirrel-updated''"
    | (uninstall) "eventName = ''--squirrel-uninstall''"
    | (other) "eventName \<notin> {''--squirrel-install'', ''--squirrel-updated'', ''--squirrel-uninstall''}"
    by blast
  then show ?thesis
  proof cases
    case install
    with assms(1) have "snd (createShortcut sys pf tr) = tr @ pre @ Spawn c a # post"
      by (simp add: handleSquirrelEvent_def started_def)
    from key [of "createShortcut sys pf", OF fail_stop_createShortcut this] show ?thesis
      using install by (simp add: handleSquirrelEvent_def started_def)
  next
    case updated
    with assms(1) have "snd (handleUpdated sys pf tr) = tr @ pre @ Spawn c a # post"
      by (simp add: handleSquirrelEvent_def started_def)
    from key [of "handleUpdated sys pf", OF fail_stop_handleUpdated this] show ?thesis
      using updated by (simp add: handleSquirrelEvent_def started_def)
  next
    case uninstall
    with assms(1) have "snd (handleUninstall sys pf tr) = tr @ pre @ Spawn c a # post"
      by (simp add: handleSquirrelEvent_def started_def)
    from key [of "handleUninstall sys pf", OF fail_stop_handleUninstall this] show ?thesis
      using uninstall by (simp add: handleSquirrelEvent_def started_def)
  next
    case other
    with assms(1) have "tr = tr @ pre @ Spawn c a # post"
      by (simp add: handleSquirrelEvent_def started_def split: if_splits)
    then show ?thesis by simp
  qed
qed

text \<open>
  The instance of C8 at \<^verbatim>\<open>--squirrel-uninstall\<close> when PowerShell exits with code 1 after
  \<^verbatim>\<open>Update.exe --removeShortcut\<close> has succeeded: \<^verbatim>\<open>setx\<close> is never spawned.
\<close>

theorem C8_fail_stop_witness:
  "fst (handleSquirrelEvent (sample_system dirA (\<lambda>c. if c = ''powershell.exe'' then 1 else 0))
          sample_platform ''--squirrel-uninstall'' [])
     = Some (Rejected (CommandFailed (dirA @ [CHR 0x0D, CHR 0x0A]))) \<and>
   snd (handleSquirrelEvent (sample_system dirA (\<lambda>c. if c = ''powershell.exe'' then 1 else 0))
          sample_platform ''--squirrel-uninstall'' [])
     = [Spawn (updateDotExe sample_platform) [''--removeShortcut'', exeName sample_platform], StdinEnd,
        Spawn ''powershell.exe'' powershellArgs, StdinEnd]"
proof -
  let ?sys = "sample_system dirA (\<lambda>c. if c = ''powershell.exe'' then 1 else 0)"
  let ?pre = "[Spawn (updateDotExe sample_platform) [''--removeShortcut'', exeName sample_platform], StdinEnd]"
  have t: "snd (handleSquirrelEvent ?sys sample_platform ''--squirrel-uninstall'' [])
      = [] @ ?pre @ Spawn ''powershell.exe'' powershellArgs # [StdinEnd]"
    by code_simp
  have p: "proc ?sys ([] @ ?pre @ [Spawn ''powershell.exe'' powershellArgs])
      = Child (map Data [dirA @ [CHR 0x0D, CHR 0x0A]] @ Close (Some 1) # [])"
    by (simp add: sample_system_def)
  have c: "Some (1 :: int) \<noteq> Some 0" by simp
  from C8_fail_stop [OF t p c] t show ?thesis by simp
qed

subsection \<open>The Path on update and on uninstall\<close>

text \<open>
  Claim C2, as the code has it. Take an operating system on which PowerShell prints
  the value the user's Path holds, the value of the last \<^verbatim>\<open>setx Path\<close>, and a bin
  directory that is non-empty, holds no semicolon and neither starts nor ends with
  whitespace. When a run of \<open>handleUpdated\<close> resolves and a second run follows it, the
  second run, whatever its outcome, spawns no command with the arguments \<^verbatim>\<open>Path\<close> and a
  value, and leaves the Path as the first run left it; after the first run the bin
  directory is among the segments read back, and the Path is either what it was or the
  segments read with the bin directory appended once. And for every bin directory and
  every operating system: in a run whose steps before line 34 succeed and whose read
  of the Path gives segments that hold the bin directory, the handler resolves with
  the trace as the read left it, in which no command is spawned with the arguments
  \<^verbatim>\<open>Path\<close> and a value: no write of the Path is performed.
\<close>

theorem C2_updated_twice:
  "(getBinPath pf \<noteq> [] \<and> semicolon \<notin> set (getBinPath pf) \<and>
    \<not> is_space (hd (getBinPath pf)) \<and> \<not> is_space (last (getBinPath pf)) \<and>
    (\<forall>t. proc sys (t @ [Spawn (powershellPath pf) powershellArgs])
        = Child [Data (userPath (setxPath pf) initial t @ [CHR 0x0D, CHR 0x0A]), Close (Some 0)]) \<and>
    handleUpdated sys pf tr = (Resolved (), tr') \<and>
    handleUpdated sys pf tr' = (out, tr'')
    \<longrightarrow> userPath (setxPath pf) initial tr'' = userPath (setxPath pf) initial tr' \<and>
        (\<forall>command v. Spawn command [''Path'', v] \<notin> set (drop (length tr') tr'')) \<and>
        getBinPath pf
          \<in> set (parsePathOutput (userPath (setxPath pf) initial tr' @ [CHR 0x0D, CHR 0x0A])) \<and>
        (userPath (setxPath pf) initial tr' = userPath (setxPath pf) initial tr \<or>
         userPath (setxPath pf) initial tr' =
           join '';'' (parsePathOutput (userPath (setxPath pf) initial tr @ [CHR 0x0D, CHR 0x0A])
                       @ [getBinPath pf]))) \<and>
   (updateShortcut sys pf tr = (Resolved (), tr_a) \<and>
    writeCLITrampoline sys pf tr_a = (Resolved binPath, tr_b) \<and>
    getPathSegments sys pf tr_b = (Resolved paths, tr_c) \<and>
    binPath \<in> set paths
    \<longrightarrow> handleUpdated sys pf tr = (Resolved (), tr_c) \<and>
        (\<forall>command v. Spawn command [''Path'', v] \<notin> set (drop (length tr) tr_c)))"
proof (intro conjI impI allI)
  assume a: "getBinPath pf \<noteq> [] \<and> semicolon \<notin> set (getBinPath pf) \<and>
    \<not> is_space (hd (getBinPath pf)) \<and> \<not> is_space (last (getBinPath pf)) \<and>
    (\<forall>t. proc sys (t @ [Spawn (powershellPath pf) powershellArgs])
        = Child [Data (userPath (setxPath pf) initial t @ [CHR 0x0D, CHR 0x0A]), Close (Some 0)]) \<and>
    handleUpdated sys pf tr = (Resolved (), tr') \<and>
    handleUpdated sys pf tr' = (out, tr'')"
  then have wf: "getBinPath pf \<noteq> []" "semicolon \<notin> set (getBinPath pf)"
      "\<not> is_space (hd (getBinPath pf))" "\<not> is_space (last (getBinPath pf))"
    and reads: "\<forall>t. proc sys (t @ [Spawn (powershellPath pf) powershellArgs])
        = Child [Data (userPath (setxPath pf) initial t @ [CHR 0x0D, CHR 0x0A]), Close (Some 0)]"
    and run1: "handleUpdated sys pf tr = (Resolved (), tr')"
    and run2: "handleUpdated sys pf tr' = (out, tr'')"
    by blast+
  note r = updated_twice [OF wf reads run1 run2]
  show "userPath (setxPath pf) initial tr'' = userPath (setxPath pf) initial tr'" by (rule r(1))
  show "Spawn command [''Path'', v] \<notin> set (drop (length tr') tr'')" for command v by (rule r(2))
  show "getBinPath pf
          \<in> set (parsePathOutput (userPath (setxPath pf) initial tr' @ [CHR 0x0D, CHR 0x0A]))"
    by (rule r(3))
  show "userPath (setxPath pf) initial tr' = userPath (setxPath pf) initial tr \<or>
         userPath (setxPath pf) initial tr' =
           join '';'' (parsePathOutput (userPath (setxPath pf) initial tr @ [CHR 0x0D, CHR 0x0A])
                       @ [getBinPath pf])"
    by (rule r(4))
next
  assume b: "updateShortcut sys pf tr = (Resolved (), tr_a) \<and>
    writeCLITrampoline sys pf tr_a = (Resolved binPath, tr_b) \<and>
    getPathSegments sys pf tr_b = (Resolved paths, tr_c) \<and>
    binPath \<in> set paths"
  then have a1: "updateShortcut sys pf tr = (Resolved (), tr_a)"
    and a2: "writeCLITrampoline sys pf tr_a = (Resolved binPath, tr_b)"
    and a3: "getPathSegments sys pf tr_b = (Resolved paths, tr_c)"
    and a4: "binPath \<in> set paths"
    by simp_all
  show "handleUpdated sys pf tr = (Resolved (), tr_c)"
    using handleUpdated_steps [OF a1 a2 a3] a4 by simp
  show "Spawn command [''Path'', v] \<notin> set (drop (length tr) tr_c)" for command v
    using a1 a2 a3 by (rule no_path_write_before)
qed

text \<open>
  Instances of C2. Two runs in succession on the storing system with the Path
  \<^verbatim>\<open>C:\A\<close> and the bin directory \<^verbatim>\<open>C:\bin\<close>: the Path is \<^verbatim>\<open>C:\A;C:\bin\<close> after the first
  run and after the second. One run on the sample system when the Path is
  \<^verbatim>\<open>C:\A;C:\bin\<close>: it resolves at the read.
\<close>

theorem C2_updated_twice_witness:
  "userPath ''setx.exe'' dirA
     (snd (handleUpdated (storing_system sample_platform dirA) sample_platform []))
     = dirA @ '';'' @ dirBin \<and>
   userPath ''setx.exe'' dirA
     (snd (handleUpdated (storing_system sample_platform dirA) sample_platform
        (snd (handleUpdated (storing_system sample_platform dirA) sample_platform []))))
     = dirA @ '';'' @ dirBin \<and>
   fst (handleUpdated (sample_system (dirA @ '';'' @ dirBin) (\<lambda>c. 0)) sample_platform [])
     = Resolved ()"
proof -
  let ?sys = "storing_system sample_platform dirA"
  let ?t1 = "snd (handleUpdated ?sys sample_platform [])"
  let ?t2 = "snd (handleUpdated ?sys sample_platform ?t1)"
  have b: "getBinPath sample_platform = dirBin" by code_simp
  have x: "setxPath sample_platform = ''setx.exe''" by (simp add: setxPath_def sample_platform_def)
  have wf: "getBinPath sample_platform \<noteq> [] \<and> semicolon \<notin> set (getBinPath sample_platform) \<and>
      \<not> is_space (hd (getBinPath sample_platform)) \<and> \<not> is_space (last (getBinPath sample_platform))"
    unfolding b by (simp add: is_space_def)
  have reads: "\<forall>t. proc ?sys (t @ [Spawn (powershellPath sample_platform) powershellArgs])
      = Child [Data (userPath (setxPath sample_platform) dirA t @ [CHR 0x0D, CHR 0x0A]), Close (Some 0)]"
    by (simp add: storing_system_def)
  have run1: "handleUpdated ?sys sample_platform [] = (Resolved (), ?t1)" by code_simp
  have run2: "handleUpdated ?sys sample_platform ?t1
      = (fst (handleUpdated ?sys sample_platform ?t1), ?t2)" by simp
  have one: "userPath ''setx.exe'' dirA ?t1 = dirA @ '';'' @ dirBin" by code_simp
  have "userPath (setxPath sample_platform) dirA ?t2 = userPath (setxPath sample_platform) dirA ?t1"
    using C2_updated_twice [where pf = sample_platform and sys = ?sys and initial = dirA
        and tr = "[]" and tr' = ?t1 and tr'' = ?t2
        and out = "fst (handleUpdated ?sys sample_platform ?t1)", THEN conjunct1]
      wf reads run1 run2
    by blast
  then have two: "userPath ''setx.exe'' dirA ?t2 = dirA @ '';'' @ dirBin"
    unfolding x using one by (rule trans)
  let ?sys' = "sample_system (dirA @ '';'' @ dirBin) (\<lambda>c. 0)"
  let ?s1 = "snd (updateShortcut ?sys' sample_platform [])"
  let ?s2 = "snd (writeCLITrampoline ?sys' sample_platform ?s1)"
  let ?s3 = "snd (getPathSegments ?sys' sample_platform ?s2)"
  have h1: "updateShortcut ?sys' sample_platform [] = (Resolved (), ?s1)" by code_simp
  have h2: "writeCLITrampoline ?sys' sample_platform ?s1 = (Resolved dirBin, ?s2)" by code_simp
  have h3: "getPathSegments ?sys' sample_platform ?s2 = (Resolved [dirA, dirBin], ?s3)" by code_simp
  have h4: "dirBin \<in> set [dirA, dirBin]" by simp
  have "handleUpdated ?sys' sample_platform [] = (Resolved (), ?s3)"
    using C2_updated_twice [where pf = sample_platform and sys = ?sys' and tr = "[]"
        and tr_a = ?s1 and binPath = dirBin and tr_b = ?s2 and paths = "[dirA, dirBin]"
        and tr_c = ?s3, THEN conjunct2]
      h1 h2 h3 h4
    by blast
  then have three: "fst (handleUpdated ?sys' sample_platform []) = Resolved ()" by simp
  from one two three show ?thesis by blast
qed

text \<open>
  Claim C2 as stated, for every bin directory, fails when the bin directory holds a
  semicolon. With the application under \<^verbatim>\<open>C:\my;apps\<close> the bin directory is
  \<^verbatim>\<open>C:\my;apps\bin\<close>. On the storing system with the Path \<^verbatim>\<open>C:\A\<close>, the first run writes
  \<^verbatim>\<open>C:\A;C:\my;apps\bin\<close>, which is read back as the three segments \<^verbatim>\<open>C:\A\<close>, \<^verbatim>\<open>C:\my\<close>
  and \<^verbatim>\<open>apps\bin\<close>; none is the bin directory, so the second run appends it again.
\<close>

theorem C2_counterexample:
  "getBinPath semicolon_platform = ''C:'' @ [backslash] @ ''my;apps'' @ [backslash] @ ''bin'' \<and>
   fst (handleUpdated (storing_system semicolon_platform dirA) semicolon_platform []) = Resolved () \<and>
   userPath ''setx.exe'' dirA
     (snd (handleUpdated (storing_system semicolon_platform dirA) semicolon_platform []))
     = dirA @ '';'' @ ''C:'' @ [backslash] @ ''my;apps'' @ [backslash] @ ''bin'' \<and>
   parsePathOutput (dirA @ '';'' @ ''C:'' @ [backslash] @ ''my;apps'' @ [backslash] @ ''bin''
                    @ [CHR 0x0D, CHR 0x0A])
     = [dirA, ''C:'' @ [backslash] @ ''my'', ''apps'' @ [backslash] @ ''bin''] \<and>
   fst (handleUpdated (storing_system semicolon_platform dirA) semicolon_platform
          (snd (handleUpdated (storing_system semicolon_platform dirA) semicolon_platform [])))
     = Resolved () \<and>
   userPath ''setx.exe'' dirA
     (snd (handleUpdated (storing_system semicolon_platform dirA) semicolon_platform
        (snd (handleUpdated (storing_system semicolon_platform dirA) semicolon_platform []))))
     = dirA @ '';'' @ ''C:'' @ [backslash] @ ''my;apps'' @ [backslash] @ ''bin''
            @ '';'' @ ''C:'' @ [backslash] @ ''my;apps'' @ [backslash] @ ''bin''"
  by code_simp

text \<open>
  Claim C3. In a run of \<open>handleUpdated\<close> whose steps before line 34 succeed and whose
  read of the Path gives segments \<open>paths\<close> that do not hold the bin directory, the
  handler goes on as \<open>setPathSegments\<close> on \<open>paths\<close> followed by the bin directory, the
  value \<open>getBinPath\<close> computes: the next call is the spawn of \<^verbatim>\<open>setx\<close> with \<^verbatim>\<open>Path\<close> and
  those segments joined by semicolons.
\<close>

theorem C3_updated_appends:
  assumes "updateShortcut sys pf tr = (Resolved (), tr1)"
    and "writeCLITrampoline sys pf tr1 = (Resolved binPath, tr2)"
    and "getPathSegments sys pf tr2 = (Resolved paths, tr3)"
    and "binPath \<notin> set paths"
  shows "binPath = getBinPath pf \<and>
         handleUpdated sys pf tr = setPathSegments sys pf (paths @ [binPath]) tr3 \<and>
         snd (handleUpdated sys pf tr) ! length tr3
           = Spawn (setxPath pf) [''Path'', join '';'' (paths @ [binPath])]"
  using writeCLITrampoline_Resolved [OF assms(2)] handleUpdated_steps [OF assms(1,2,3)] assms(4)
  by (simp add: setPathSegments_call)

text \<open>
  The instance of C3 on the sample system when the Path is \<^verbatim>\<open>C:\A\<close> and the bin
  directory \<^verbatim>\<open>C:\bin\<close>: the value written is \<^verbatim>\<open>C:\A;C:\bin\<close>.
\<close>

theorem C3_updated_appends_witness:
  "snd (handleUpdated (sample_system dirA (\<lambda>c. 0)) sample_platform []) ! 7
     = Spawn ''setx.exe'' [''Path'', dirA @ '';'' @ dirBin] \<and>
   getBinPath sample_platform = dirBin"
proof -
  let ?sys = "sample_system dirA (\<lambda>c. 0)"
  let ?t1 = "snd (updateShortcut ?sys sample_platform [])"
  let ?t2 = "snd (writeCLITrampoline ?sys sample_platform ?t1)"
  let ?t3 = "snd (getPathSegments ?sys sample_platform ?t2)"
  have h1: "updateShortcut ?sys sample_platform [] = (Resolved (), ?t1)" by code_simp
  have h2: "writeCLITrampoline ?sys sample_platform ?t1 = (Resolved dirBin, ?t2)" by code_simp
  have h3: "getPathSegments ?sys sample_platform ?t2 = (Resolved [dirA], ?t3)" by code_simp
  have h4: "dirBin \<notin> set [dirA]" by simp
  have l: "length ?t3 = 7" by code_simp
  have x: "setxPath sample_platform = ''setx.exe''" by (simp add: setxPath_def sample_platform_def)
  note r = C3_updated_appends [OF h1 h2 h3 h4]
  from r have "snd (handleUpdated ?sys sample_platform []) ! length ?t3
      = Spawn (setxPath sample_platform) [''Path'', join '';'' ([dirA] @ [dirBin])]"
    by blast
  then have 1: "snd (handleUpdated ?sys sample_platform []) ! 7
      = Spawn ''setx.exe'' [''Path'', dirA @ '';'' @ dirBin]"
    unfolding l x by simp
  from r have 2: "getBinPath sample_platform = dirBin" by simp
  from 1 2 show ?thesis by simp
qed

text \<open>
  Claim C1, as the code has it. In a run of \<open>handleUninstall\<close> whose removal of the
  shortcut succeeds and whose read of the Path gives \<open>paths\<close>, the handler goes on as
  \<open>setPathSegments\<close> on \<open>paths\<close> without every entry equal to the bin directory, the
  other segments kept in their order: the next call is the spawn of \<^verbatim>\<open>setx\<close> with
  \<^verbatim>\<open>Path\<close> and those segments joined by semicolons. When \<open>paths\<close> holds the bin
  directory exactly once, exactly that entry is removed.
\<close>

theorem C1_uninstall_removes_all:
  assumes "removeShortcut sys pf tr = (Resolved (), tr1)"
    and "getPathSegments sys pf tr1 = (Resolved paths, tr2)"
  shows "handleUninstall sys pf tr
           = setPathSegments sys pf (filter (\<lambda>p. p \<noteq> getBinPath pf) paths) tr2 \<and>
         snd (handleUninstall sys pf tr) ! length tr2
           = Spawn (setxPath pf) [''Path'', join '';'' (filter (\<lambda>p. p \<noteq> getBinPath pf) paths)] \<and>
         (\<forall>pre post. paths = pre @ getBinPath pf # post \<and> getBinPath pf \<notin> set pre \<and>
              getBinPath pf \<notin> set post
            \<longrightarrow> filter (\<lambda>p. p \<noteq> getBinPath pf) paths = pre @ post)"
proof -
  have h: "handleUninstall sys pf tr
           = setPathSegments sys pf (filter (\<lambda>p. p \<noteq> getBinPath pf) paths) tr2"
    using assms by (simp add: handleUninstall_def bind_io_def Let_def)
  have "filter (\<lambda>p. p \<noteq> b) (pre @ b # post) = pre @ post"
    if "b \<notin> set pre" "b \<notin> set post" for b :: string and pre post
    using that by (induction pre) (auto simp: filter_id_conv)
  then show ?thesis using h by (auto simp: setPathSegments_call)
qed

text \<open>
  The instance of C1 on the sample system when the Path is \<^verbatim>\<open>C:\A;C:\bin;C:\B\<close>: the
  value written is \<^verbatim>\<open>C:\A;C:\B\<close>.
\<close>

theorem C1_uninstall_removes_all_witness:
  "snd (handleUninstall (sample_system (dirA @ '';'' @ dirBin @ '';'' @ dirB) (\<lambda>c. 0)) sample_platform []) ! 4
     = Spawn ''setx.exe'' [''Path'', dirA @ '';'' @ dirB] \<and>
   filter (\<lambda>p. p \<noteq> dirBin) [dirA, dirBin, dirB] = [dirA, dirB]"
proof -
  let ?sys = "sample_system (dirA @ '';'' @ dirBin @ '';'' @ dirB) (\<lambda>c. 0)"
  let ?t1 = "snd (removeShortcut ?sys sample_platform [])"
  let ?t2 = "snd (getPathSegments ?sys sample_platform ?t1)"
  have h1: "removeShortcut ?sys sample_platform [] = (Resolved (), ?t1)" by code_simp
  have h2: "getPathSegments ?sys sample_platform ?t1 = (Resolved [dirA, dirBin, dirB], ?t2)" by code_simp
  have l: "length ?t2 = 4" by code_simp
  have x: "setxPath sample_platform = ''setx.exe''" by (simp add: setxPath_def sample_platform_def)
  have b: "getBinPath sample_platform = dirBin" by code_simp
  note r = C1_uninstall_removes_all [OF h1 h2]
  from r have "snd (handleUninstall ?sys sample_platform []) ! length ?t2
       = Spawn (setxPath sample_platform)
           [''Path'', join '';'' (filter (\<lambda>p. p \<noteq> getBinPath sample_platform) [dirA, dirBin, dirB])]"
    by blast
  then have 1: "snd (handleUninstall ?sys sample_platform []) ! 4
       = Spawn ''setx.exe'' [''Path'', dirA @ '';'' @ dirB]"
    unfolding l x b by simp
  from r have "[dirA, dirBin, dirB] = [dirA] @ getBinPath sample_platform # [dirB] \<and>
        getBinPath sample_platform \<notin> set [dirA] \<and> getBinPath sample_platform \<notin> set [dirB]
      \<longrightarrow> filter (\<lambda>p. p \<noteq> getBinPath sample_platform) [dirA, dirBin, dirB] = [dirA] @ [dirB]"
    by blast
  then have 2: "filter (\<lambda>p. p \<noteq> dirBin) [dirA, dirBin, dirB] = [dirA, dirB]"
    by (simp add: b)
  from 1 2 show ?thesis by simp
qed

text \<open>
  Claim C1 as stated, with exactly one occurrence removed, fails when the bin directory
  occurs twice. On the sample system with the Path \<^verbatim>\<open>C:\bin;C:\A;C:\bin\<close>, read as the
  three segments, the value written is \<^verbatim>\<open>C:\A\<close>: both occurrences are gone. Removing
  exactly one would have written \<^verbatim>\<open>C:\A;C:\bin\<close> or \<^verbatim>\<open>C:\bin;C:\A\<close>.
\<close>

theorem C1_counterexample:
  "snd (handleUninstall (sample_system (dirBin @ '';'' @ dirA @ '';'' @ dirBin) (\<lambda>c. 0)) sample_platform [])
     = [Spawn (updateDotExe sample_platform) [''--removeShortcut'', exeName sample_platform], StdinEnd,
        Spawn ''powershell.exe'' powershellArgs, StdinEnd,
        Spawn ''setx.exe'' [''Path'', dirA], StdinEnd] \<and>
   getBinPath sample_platform = dirBin \<and>
   parsePathOutput (dirBin @ '';'' @ dirA @ '';'' @ dirBin @ [CHR 0x0D, CHR 0x0A]) = [dirBin, dirA, dirBin] \<and>
   join '';'' [dirA, dirBin] \<noteq> dirA \<and> join '';'' [dirBin, dirA] \<noteq> dirA"
  by code_simp

end
